theory Spec2Isabelle
  imports Main "HOL-Library.Multiset"
begin

section \<open>Mental Arithmetic Trainer (MAT.py): a shallow embedding\<close>

text \<open>
  The program is one Python file: a Tk window class \<open>ArithmeticProgram\<close> and the module
  functions \<open>settings_errors\<close>, \<open>get_answer\<close>, \<open>write_cfg\<close> and \<open>read_cfg\<close>.
  Python values that occur in a settings dict are integers or strings; a Python \<open>str\<close> is
  modelled as a \<open>string\<close> whose characters stand for the code points below 256, so the
  operator glyph U+00B7 is the single character \<open>CHR 0xB7\<close>, as it is one character in
  Python. A dict is an association list in insertion order with distinct keys. An
  exception is a value of type \<open>error\<close>, and a function that can raise returns
  \<open>error + 'a\<close>.
\<close>

subsection \<open>Python values, exceptions and dicts\<close>

datatype pyval = PInt int | PStr string

datatype error = ValueError | IndexError | KeyError | TypeError | AttributeError | OSError

datatype dialog = ShowError string string | ShowInfo string string

type_synonym pydict = "(string \<times> pyval) list"

definition ebind :: "error + 'a \<Rightarrow> ('a \<Rightarrow> error + 'b) \<Rightarrow> error + 'b" where
  "ebind m f = (case m of Inl e \<Rightarrow> Inl e | Inr x \<Rightarrow> f x)"

text \<open>\<open>d[k]\<close>: raises KeyError when the key is absent.\<close>

definition getitem :: "pydict \<Rightarrow> string \<Rightarrow> error + pyval" where
  "getitem d k = (case map_of d k of None \<Rightarrow> Inl KeyError | Some v \<Rightarrow> Inr v)"

text \<open>\<open>d[k] = v\<close>: an existing key keeps its position, a new key goes to the end.\<close>

fun setitem :: "pydict \<Rightarrow> string \<Rightarrow> pyval \<Rightarrow> pydict" where
  "setitem [] k v = [(k, v)]"
| "setitem (p # d) k v = (if fst p = k then (k, v) # d else p # setitem d k v)"

text \<open>A dict entry used as an integer operand: a string there raises TypeError.\<close>

definition get_int :: "pydict \<Rightarrow> string \<Rightarrow> error + int" where
  "get_int d k = ebind (getitem d k) (\<lambda>v. case v of PInt n \<Rightarrow> Inr n | PStr _ \<Rightarrow> Inl TypeError)"

subsection \<open>Strings: \<open>str\<close>, \<open>int\<close>, \<open>rstrip\<close>, \<open>split\<close>, \<open>join\<close>, \<open>readlines\<close>\<close>

definition nl :: string where
  "nl = [CHR 0x0A]"

text \<open>Whitespace of the \<open>str\<close> methods (\<open>str.isspace\<close>), on code points below 256.\<close>

definition py_isspace :: "char \<Rightarrow> bool" where
  "py_isspace c =
     (let n = (of_char c :: nat)
      in (9 \<le> n \<and> n \<le> 13) \<or> (28 \<le> n \<and> n \<le> 32) \<or> n = 133 \<or> n = 160)"

text \<open>
  Whitespace that \<open>int()\<close> skips around a literal: the ASCII characters of C's
  \<open>isspace\<close>, and the non-ASCII Unicode spaces.
\<close>

definition int_space :: "char \<Rightarrow> bool" where
  "int_space c =
     (let n = (of_char c :: nat)
      in (9 \<le> n \<and> n \<le> 13) \<or> n = 32 \<or> n = 133 \<or> n = 160)"

definition is_digit :: "char \<Rightarrow> bool" where
  "is_digit c = (let n = (of_char c :: nat) in 48 \<le> n \<and> n \<le> 57)"

definition digit_val :: "char \<Rightarrow> nat" where
  "digit_val c = of_char c - 48"

definition digit_char :: "nat \<Rightarrow> char" where
  "digit_char n = ''0123456789'' ! n"

text \<open>
  The digits of a base-10 literal after the first one: digits, and single underscores
  that stand between two digits.
\<close>

fun digits_value :: "nat \<Rightarrow> string \<Rightarrow> nat option" where
  "digits_value acc [] = Some acc"
| "digits_value acc (c # cs) =
     (if is_digit c then digits_value (10 * acc + digit_val c) cs
      else if c = CHR ''_'' then
        (case cs of
           [] \<Rightarrow> None
         | d # ds \<Rightarrow> if is_digit d then digits_value (10 * acc + digit_val d) ds else None)
      else None)"

definition digits :: "string \<Rightarrow> nat option" where
  "digits s = (case s of [] \<Rightarrow> None
               | c # cs \<Rightarrow> if is_digit c then digits_value (digit_val c) cs else None)"

definition int_strip :: "string \<Rightarrow> string" where
  "int_strip s = rev (dropWhile int_space (rev (dropWhile int_space s)))"

text \<open>
  \<open>int(s)\<close> for a string, base 10: surrounding whitespace, an optional sign, digits.
  None stands for ValueError. (The interpreter's optional limit on the number of digits
  of a literal is not part of the model: integers are unbounded.)
\<close>

definition int_of_str :: "string \<Rightarrow> int option" where
  "int_of_str s =
     (case int_strip s of
        [] \<Rightarrow> None
      | c # cs \<Rightarrow>
          if c = CHR ''-'' then map_option (\<lambda>n. - int n) (digits cs)
          else if c = CHR ''+'' then map_option int (digits cs)
          else map_option int (digits (c # cs)))"

definition py_int :: "pyval \<Rightarrow> int option" where
  "py_int v = (case v of PInt n \<Rightarrow> Some n | PStr s \<Rightarrow> int_of_str s)"

fun str_nat :: "nat \<Rightarrow> string" where
  "str_nat n = (if n < 10 then [digit_char n] else str_nat (n div 10) @ [digit_char (n mod 10)])"

declare str_nat.simps [simp del]

definition str_int :: "int \<Rightarrow> string" where
  "str_int i = (if i < 0 then CHR ''-'' # str_nat (nat (- i)) else str_nat (nat i))"

definition py_str :: "pyval \<Rightarrow> string" where
  "py_str v = (case v of PInt n \<Rightarrow> str_int n | PStr s \<Rightarrow> s)"

definition rstrip :: "string \<Rightarrow> string" where
  "rstrip s = rev (dropWhile py_isspace (rev s))"

fun split_on :: "char \<Rightarrow> string \<Rightarrow> string list" where
  "split_on sep [] = [[]]"
| "split_on sep (c # cs) =
     (if c = sep then [] # split_on sep cs
      else (case split_on sep cs of [] \<Rightarrow> [[c]] | w # ws \<Rightarrow> (c # w) # ws))"

fun py_join :: "string \<Rightarrow> string list \<Rightarrow> string" where
  "py_join sep [] = []"
| "py_join sep [x] = x"
| "py_join sep (x # y # ys) = x @ sep @ py_join sep (y # ys)"

text \<open>\<open>readlines()\<close>: the lines of a text, each with its line feed when it has one.\<close>

fun readlines :: "string \<Rightarrow> string list" where
  "readlines [] = []"
| "readlines (c # cs) =
     (if c = CHR 0x0A then [c] # readlines cs
      else (case readlines cs of [] \<Rightarrow> [[c]] | l # ls \<Rightarrow> (c # l) # ls))"

subsection \<open>Module parameters\<close>

definition MAX_NUMBERS :: int where
  "MAX_NUMBERS = 5"

definition OPERATORS :: "string list" where
  "OPERATORS = [''+'', ''-'', [CHR 0xB7]]"

definition RANGE_LIMIT :: int where
  "RANGE_LIMIT = 1000"

definition MAX_TIME_LIMIT :: int where
  "MAX_TIME_LIMIT = 900"

definition defaults :: pydict where
  "defaults =
     [(''numbercount'', PInt 2), (''range_lower'', PInt 0), (''range_upper'', PInt 20),
      (''operator'', PStr (OPERATORS ! 0)), (''time_limit'', PInt 120)]"

subsection \<open>\<open>get_answer\<close>\<close>

text \<open>The two accumulating loops of \<open>get_answer\<close> over \<open>numbers[1:]\<close>.\<close>

fun sub_loop :: "int \<Rightarrow> int list \<Rightarrow> int" where
  "sub_loop base [] = base"
| "sub_loop base (i # rest) = sub_loop (base - i) rest"

fun mul_loop :: "int \<Rightarrow> int list \<Rightarrow> int" where
  "mul_loop base [] = base"
| "mul_loop base (i # rest) = mul_loop (base * i) rest"

text \<open>
  The result carries the message boxes the call shows. \<open>numbers[0]\<close> raises IndexError
  on an empty list; \<open>sum\<close> of an empty list is 0.
\<close>

definition get_answer :: "int list \<Rightarrow> pyval \<Rightarrow> error + (dialog list \<times> int)" where
  "get_answer nums op =
     (if op = PStr ''+'' then Inr ([], sum_list nums)
      else if op = PStr ''-'' then
        (case nums of [] \<Rightarrow> Inl IndexError | base # rest \<Rightarrow> Inr ([], sub_loop base rest))
      else if op = PStr [CHR 0xB7] then
        (case nums of [] \<Rightarrow> Inl IndexError | base # rest \<Rightarrow> Inr ([], mul_loop base rest))
      else Inr ([ShowError ''No'' ''This really shouldn't happen. Bug report time.''], 0))"

subsection \<open>\<open>settings_errors\<close>\<close>

text \<open>
  The first loop replaces every value but the operator's by its \<open>int()\<close>, in the dict
  itself. The flag of the result is False when a ValueError was caught: the dict is then
  the one converted so far.
\<close>

fun int_loop :: "string list \<Rightarrow> pydict \<Rightarrow> error + (bool \<times> pydict)" where
  "int_loop [] s = Inr (True, s)"
| "int_loop (i # ks) s =
     (if i \<noteq> ''operator'' then
        ebind (getitem s i) (\<lambda>v.
          case py_int v of
            None \<Rightarrow> Inr (False, s)
          | Some n \<Rightarrow> int_loop ks (setitem s i (PInt n)))
      else int_loop ks s)"

definition msg_integers :: string where
  "msg_integers = ''All input fields except operator must only contain integers.''"

definition msg_numbercount :: string where
  "msg_numbercount =
     ''Number settings: maximum amount of numbers allowed in the calculation is ''
       @ py_str (PInt MAX_NUMBERS) @ ''.''"

definition msg_range :: string where
  "msg_range =
     ''Range settings: allowed range for the numbers is from '' @ py_str (PInt 0)
       @ '' to '' @ py_str (PInt RANGE_LIMIT) @ ''.''"

definition msg_order :: string where
  "msg_order = ''Range settings: lower range must be smaller than upper range.''"

definition msg_operator :: string where
  "msg_operator = ''Operator: unsupported operator, choose one from dropdown list.''"

definition msg_time :: string where
  "msg_time = ''Time limit: must be between 0 and '' @ py_str (PInt MAX_TIME_LIMIT) @ ''.''"

definition op_in_OPERATORS :: "pyval \<Rightarrow> bool" where
  "op_in_OPERATORS v = (case v of PInt _ \<Rightarrow> False | PStr s \<Rightarrow> s \<in> set OPERATORS)"

definition settings_errors :: "pydict \<Rightarrow> error + (string list \<times> pydict)" where
  "settings_errors s0 =
     ebind (int_loop (map fst s0) s0) (\<lambda>(converted, s).
       if \<not> converted then Inr ([msg_integers], s)
       else
         ebind (get_int s ''numbercount'') (\<lambda>numbercount.
         ebind (get_int s ''range_lower'') (\<lambda>range_lower.
         ebind (get_int s ''range_upper'') (\<lambda>range_upper.
         ebind (getitem s ''operator'') (\<lambda>operator.
         ebind (get_int s ''time_limit'') (\<lambda>time_limit.
           Inr ((if \<not> (1 < numbercount \<and> numbercount \<le> MAX_NUMBERS)
                 then [msg_numbercount] else [])
                @ (if \<not> (0 \<le> range_lower \<and> range_lower \<le> RANGE_LIMIT)
                      \<or> \<not> (0 \<le> range_upper \<and> range_upper \<le> RANGE_LIMIT)
                   then [msg_range] else [])
                @ (if range_lower \<ge> range_upper then [msg_order] else [])
                @ (if \<not> op_in_OPERATORS operator then [msg_operator] else [])
                @ (if \<not> (-1 < time_limit \<and> time_limit < MAX_TIME_LIMIT)
                   then [msg_time] else []),
                s)))))))"

subsection \<open>The settings file: \<open>write_cfg\<close> and \<open>read_cfg\<close>\<close>

text \<open>
  The file is the text that reading it returns, or None when it cannot be opened.
  \<open>write_cfg\<close> replaces it by one line \<open>name;value\<close> per entry of the dict.
\<close>

definition cfg_line :: "string \<times> pyval \<Rightarrow> string" where
  "cfg_line kv = py_join '';'' [fst kv, py_str (snd kv)]"

definition write_cfg :: "pydict \<Rightarrow> string option" where
  "write_cfg d = Some (py_join nl (map cfg_line d))"

text \<open>
  The loop of \<open>read_cfg\<close> over the lines. \<open>words[1]\<close> raises IndexError on a line
  without a semicolon, \<open>int(value)\<close> raises ValueError.
\<close>

fun cfg_loop :: "string list \<Rightarrow> pydict \<Rightarrow> error + pydict" where
  "cfg_loop [] temp_settings = Inr temp_settings"
| "cfg_loop (i # lines) temp_settings =
     (case split_on CHR '';'' (rstrip i) of
        setting # val # _ \<Rightarrow>
          if setting \<noteq> ''operator'' then
            (case int_of_str val of
               None \<Rightarrow> Inl ValueError
             | Some n \<Rightarrow> cfg_loop lines (setitem temp_settings setting (PInt n)))
          else cfg_loop lines (setitem temp_settings setting (PStr val))
      | _ \<Rightarrow> Inl IndexError)"

definition msg_faulty :: string where
  "msg_faulty = ''The configuration file is faulty.'' @ nl @ ''Creating a new default file.''"

definition msg_not_found :: string where
  "msg_not_found =
     ''The configuration file was not found or could not be accessed. A new one will be created. ''
       @ nl @ ''If this is the first time you're launchingthe program, this is supposed to happen.''"

text \<open>
  \<open>read_cfg\<close> takes the file and returns the settings, the message boxes shown and the
  file as it leaves it. The three handlers write the defaults back.
\<close>

definition read_cfg :: "string option \<Rightarrow> pydict \<times> dialog list \<times> string option" where
  "read_cfg file =
     (case file of
        None \<Rightarrow> (defaults, [ShowError ''File error'' msg_not_found], write_cfg defaults)
      | Some text \<Rightarrow>
          (case cfg_loop (readlines text) [] of
             Inl _ \<Rightarrow> (defaults, [ShowError ''File error'' msg_faulty], write_cfg defaults)
           | Inr temp_settings \<Rightarrow>
               if \<exists>i \<in> set (map fst defaults). i \<notin> set (map fst temp_settings)
               then (defaults, [ShowError ''File error'' msg_faulty], write_cfg defaults)
               else (temp_settings, [], file)))"

subsection \<open>The state of \<open>ArithmeticProgram\<close>\<close>

text \<open>
  The fields of the object, the widgets it reads and writes, and its environment.
  \<^item> \<open>numbers\<close> are the values of the \<open>MAX_NUMBERS\<close> IntVars of the equation.
    \<open>numbers_in_use\<close> is the slice \<open>numbers[first:]\<close> of these IntVar objects, which it
    shares with \<open>numbers\<close>: it is kept as its start index, None before the first game.
  \<^item> \<open>numbercount_w\<close> to \<open>time_entry_w\<close> and \<open>uanswer\<close> are the texts of the entry widgets;
    \<open>running_active\<close> and \<open>stopped_active\<close> tell whether the widgets of the two lists
    \<open>running_active_widgets\<close> and \<open>stopped_active_widgets\<close> are enabled (the Stop button
    and the answer entry are in the first list, the Start button and the settings
    entries in the second); \<open>uanswer_focus\<close> tells whether the answer entry has the
    keyboard focus.
  \<^item> \<open>pending\<close> are the calls of \<open>countdown\<close> scheduled with \<open>window.after\<close> and not yet
    run, each with its argument, oldest first; \<open>dialogs\<close> are the message boxes shown so
    far; \<open>rng\<close> is the source of the random numbers with the position \<open>rng_pos\<close> of
    the next one; \<open>cfg_file\<close> is the settings file.
  The geometry of the labels (grid, width) is not part of the state.
\<close>

record app =
  settings :: pydict
  answers_correct :: int
  answers_all :: int
  stoptimer :: bool
  results_cur :: string
  results_prev :: string
  time_left :: int
  operator_var :: pyval
  numbers :: "int list"
  numbers_in_use :: "nat option"
  numbercount_w :: string
  range_lower_w :: string
  range_upper_w :: string
  op_dropdown_w :: string
  time_entry_w :: string
  uanswer :: string
  uanswer_focus :: bool
  running_active :: bool
  stopped_active :: bool
  pending :: "int list"
  dialogs :: "dialog list"
  rng :: "nat \<Rightarrow> nat"
  rng_pos :: nat
  cfg_file :: "string option"

text \<open>
  A method that changes the object returns the exception that left it, if any, and the
  state it leaves: what it changed before an exception stays changed.
\<close>

definition andthen :: "error option \<times> app \<Rightarrow> (app \<Rightarrow> error option \<times> app) \<Rightarrow> error option \<times> app" where
  "andthen r f = (case fst r of None \<Rightarrow> f (snd r) | Some e \<Rightarrow> r)"

text \<open>\<open>clear_field(self.__uanswer)\<close>: Tk ignores the deletion on a disabled entry.\<close>

definition clear_field :: "app \<Rightarrow> app" where
  "clear_field s = (if running_active s then s\<lparr>uanswer := []\<rparr> else s)"

text \<open>
  \<open>randint(low, high)\<close> on the next value of the random source: a number of
  \<open>[low, high]\<close>, ValueError on an empty range, TypeError on a string.
\<close>

definition randint :: "pyval \<Rightarrow> pyval \<Rightarrow> nat \<Rightarrow> error + int" where
  "randint low high raw =
     (case (low, high) of
        (PInt l, PInt h) \<Rightarrow>
          if h < l then Inl ValueError else Inr (l + int (raw mod nat (h - l + 1)))
      | _ \<Rightarrow> Inl TypeError)"

fun rand_loop :: "nat \<Rightarrow> pyval \<Rightarrow> pyval \<Rightarrow> (nat \<Rightarrow> nat) \<Rightarrow> nat \<Rightarrow> error + int list" where
  "rand_loop 0 low high src pos = Inr []"
| "rand_loop (Suc n) low high src pos =
     ebind (randint low high (src pos)) (\<lambda>r.
     ebind (rand_loop n low high src (Suc pos)) (\<lambda>rs. Inr (r # rs)))"

definition set_new_calculation :: "app \<Rightarrow> error option \<times> app" where
  "set_new_calculation s =
     (case getitem (settings s) ''range_lower'' of
        Inl e \<Rightarrow> (Some e, s)
      | Inr low \<Rightarrow>
     (case getitem (settings s) ''range_upper'' of
        Inl e \<Rightarrow> (Some e, s)
      | Inr high \<Rightarrow>
     (case numbers_in_use s of
        None \<Rightarrow> (Some AttributeError, s)
      | Some first \<Rightarrow>
     (case rand_loop (length (numbers s) - first) low high (rng s) (rng_pos s) of
        Inl e \<Rightarrow> (Some e, s)
      | Inr rs \<Rightarrow>
          (None, clear_field (s\<lparr>numbers := take first (numbers s) @ rs,
                                  rng_pos := rng_pos s + length rs\<rparr>))))))"

definition score_text :: "int \<Rightarrow> int \<Rightarrow> string" where
  "score_text c a = py_str (PInt c) @ '' / '' @ py_str (PInt a)"

definition advance_turn :: "bool \<Rightarrow> app \<Rightarrow> error option \<times> app" where
  "advance_turn correct s =
     (let s1 = s\<lparr>answers_all := answers_all s + 1\<rparr>;
          s2 = (if correct then s1\<lparr>answers_correct := answers_correct s1 + 1\<rparr> else s1);
          s3 = s2\<lparr>results_cur := score_text (answers_correct s2) (answers_all s2)\<rparr>
      in set_new_calculation s3)"

definition stop_game :: "app \<Rightarrow> app" where
  "stop_game s =
     (let s1 = s\<lparr>stoptimer := True, time_left := 0, uanswer_focus := False\<rparr>;
          s2 = clear_field s1;
          s3 = s2\<lparr>running_active := False, stopped_active := True\<rparr>
      in s3\<lparr>answers_correct := 0, answers_all := 0\<rparr>)"

text \<open>\<open>window.after(1000, self.countdown, count - 1)\<close> appends to \<open>pending\<close> (the parameter \<open>count\<close> is \<open>cnt\<close> here).\<close>

definition countdown :: "int \<Rightarrow> app \<Rightarrow> app" where
  "countdown cnt s =
     (if stoptimer s then s
      else if cnt > 0 then s\<lparr>time_left := cnt - 1, pending := pending s @ [cnt - 1]\<rparr>
      else stop_game s)"

text \<open>
  The equation has \<open>2 * MAX_NUMBERS\<close> labels; indexing them from
  \<open>first_used_label_index\<close> raises IndexError when that index is below \<open>- 2 * MAX_NUMBERS\<close>.
\<close>

definition left_eq_config :: "app \<Rightarrow> error option \<times> app" where
  "left_eq_config s =
     (case getitem (settings s) ''numbercount'' of
        Inl e \<Rightarrow> (Some e, s)
      | Inr numcount \<Rightarrow>
     (case getitem (settings s) ''range_upper'' of
        Inl e \<Rightarrow> (Some e, s)
      | Inr _ \<Rightarrow>
     (case getitem (settings s) ''operator'' of
        Inl e \<Rightarrow> (Some e, s)
      | Inr op \<Rightarrow>
          (let s1 = s\<lparr>operator_var := op\<rparr>
           in case numcount of
                PStr _ \<Rightarrow> (Some TypeError, s1)
              | PInt n \<Rightarrow>
                  if 2 * MAX_NUMBERS - n * 2 < - (2 * MAX_NUMBERS) then (Some IndexError, s1)
                  else (None, s1)))))"

text \<open>The start of the slice \<open>xs[i:]\<close> of a list of length \<open>len\<close>.\<close>

definition slice_start :: "int \<Rightarrow> nat \<Rightarrow> nat" where
  "slice_start i len = (if i < 0 then nat (int len + i) else min (nat i) len)"

definition start_game_setup :: "app \<Rightarrow> error option \<times> app" where
  "start_game_setup s =
     andthen (left_eq_config s) (\<lambda>s1.
       let s2 = s1\<lparr>stopped_active := False, running_active := True\<rparr>
       in case get_int (settings s2) ''numbercount'' of
            Inl e \<Rightarrow> (Some e, s2)
          | Inr numbercount \<Rightarrow>
              (let first_used_number_index = MAX_NUMBERS - numbercount;
                   s3 = s2\<lparr>numbers_in_use :=
                             Some (slice_start first_used_number_index (length (numbers s2)))\<rparr>;
                   s4 = s3\<lparr>stoptimer := False\<rparr>;
                   s5 = (if results_cur s4 \<noteq> []
                         then s4\<lparr>results_prev := results_cur s4, results_cur := []\<rparr>
                         else s4)
               in set_new_calculation s5))"

definition temp_settings :: "app \<Rightarrow> pydict" where
  "temp_settings s =
     [(''numbercount'', PStr (numbercount_w s)),
      (''range_lower'', PStr (range_lower_w s)),
      (''range_upper'', PStr (range_upper_w s)),
      (''operator'', PStr (op_dropdown_w s)),
      (''time_limit'', PStr (time_entry_w s))]"

definition push_settings :: "bool \<Rightarrow> app \<Rightarrow> error + (bool \<times> app)" where
  "push_settings display_errors s =
     ebind (settings_errors (temp_settings s)) (\<lambda>(errors, temp__settings).
       if errors = [] then Inr (True, s\<lparr>settings := temp__settings\<rparr>)
       else if display_errors then
         Inr (False, s\<lparr>dialogs := dialogs s @
           [ShowError ''Input error''
              (''The following errors were found:'' @ nl @ nl @ py_join (nl @ nl) errors)]\<rparr>)
       else Inr (False, s))"

definition start_game :: "app \<Rightarrow> error option \<times> app" where
  "start_game s =
     (case push_settings True s of
        Inl e \<Rightarrow> (Some e, s)
      | Inr (pushed, s1) \<Rightarrow>
          if pushed then
            andthen (start_game_setup s1) (\<lambda>s2.
              case get_int (settings s2) ''time_limit'' of
                Inl e \<Rightarrow> (Some e, s2)
              | Inr time_limit \<Rightarrow>
                  (let s3 = (if time_limit \<noteq> 0 then countdown time_limit s2 else s2)
                   in (None, s3\<lparr>uanswer_focus := True\<rparr>)))
          else (None, s1))"

definition bad_input :: "app \<Rightarrow> app" where
  "bad_input s =
     (let s1 = clear_field s
      in s1\<lparr>dialogs := dialogs s1 @
           [ShowError ''Bad input'' ''Input can only be an integer or empty'']\<rparr>)"

text \<open>
  The \<open>try\<close> of \<open>answer_process\<close> holds the two calls of \<open>advance_turn\<close> besides
  \<open>int(uanswer)\<close>, so a ValueError of either reaches the handler.
\<close>

definition answer_process :: "string \<Rightarrow> app \<Rightarrow> error option \<times> app" where
  "answer_process txt s =
     (case numbers_in_use s of
        None \<Rightarrow> (Some AttributeError, s)
      | Some first \<Rightarrow>
     (case getitem (settings s) ''operator'' of
        Inl e \<Rightarrow> (Some e, s)
      | Inr op \<Rightarrow>
     (case get_answer (drop first (numbers s)) op of
        Inl e \<Rightarrow> (Some e, s)
      | Inr (boxes, answer) \<Rightarrow>
          (let s1 = s\<lparr>dialogs := dialogs s @ boxes\<rparr>;
               tried = (case int_of_str txt of
                          None \<Rightarrow> (Some ValueError, s1)
                        | Some n \<Rightarrow> advance_turn (n = answer) s1)
           in if fst tried = Some ValueError then
                (if txt = [] then advance_turn False (snd tried)
                 else (None, bad_input (snd tried)))
              else tried))))"

text \<open>The event loop runs the oldest scheduled call of \<open>countdown\<close>.\<close>

definition fire_tick :: "app \<Rightarrow> app" where
  "fire_tick s = (case pending s of [] \<Rightarrow> s | c # cs \<Rightarrow> countdown c (s\<lparr>pending := cs\<rparr>))"

fun fire_ticks :: "nat \<Rightarrow> app \<Rightarrow> app" where
  "fire_ticks 0 s = s"
| "fire_ticks (Suc n) s = fire_ticks n (fire_tick s)"

text \<open>
  The buttons as the user reaches them: Tk does not run the command of a disabled
  button, and the key binding of the answer entry runs when the entry has the focus.
\<close>

definition start_button :: "app \<Rightarrow> error option \<times> app" where
  "start_button s = (if stopped_active s then start_game s else (None, s))"

definition stop_button :: "app \<Rightarrow> app" where
  "stop_button s = (if running_active s then stop_game s else s)"

definition submit_key :: "app \<Rightarrow> error option \<times> app" where
  "submit_key s = (if uanswer_focus s then answer_process (uanswer s) s else (None, s))"

text \<open>The clear key of the answer entry, and the Help button with its message.\<close>

definition clear_key :: "app \<Rightarrow> app" where
  "clear_key s = (if uanswer_focus s then clear_field s else s)"

definition help_text :: string where
  "help_text =
     ''This program is for training mental arithmetic.'' @ nl @ nl
     @ ''The numbers setting lets you change how many numbers will be in the calculation. (2-''
     @ py_str (PInt MAX_NUMBERS) @ '')'' @ nl @ nl
     @ ''The range setting lets you choose the range in which thenumbers are randomly chosen from. (0-''
     @ py_str (PInt RANGE_LIMIT) @ '')'' @ nl @ nl
     @ ''The operator setting will let you choose the calculation method.'' @ nl @ nl
     @ ''Time limit: you can set a timer. If it is set to 0, timer will be disabled. (0-''
     @ py_str (PInt MAX_TIME_LIMIT) @ '')'' @ nl @ nl
     @ ''When the game is started, simply write the correct answer and press the ENTER button to submit it and move on to the next one. The game will run until you press start or until timer runs out. Pressing ENTER when the answer box is empty will skip.''
     @ nl @ nl
     @ ''Your current and previous scores will be shown in the bottom.''"

definition help_button :: "app \<Rightarrow> app" where
  "help_button s =
     (if stopped_active s then s\<lparr>dialogs := dialogs s @ [ShowInfo ''Help'' help_text]\<rparr> else s)"

text \<open>\<open>quit\<close>: the settings are pushed without message boxes and written to the file.\<close>

definition quit :: "app \<Rightarrow> error option \<times> app" where
  "quit s =
     (case push_settings False s of
        Inl e \<Rightarrow> (Some e, s)
      | Inr (_, s1) \<Rightarrow> (None, s1\<lparr>cfg_file := write_cfg (settings s1)\<rparr>))"

text \<open>
  \<open>__init__\<close>: the settings come from \<open>read_cfg\<close>, which has all five keys in its
  result; the entries show them.
\<close>

definition shown :: "pydict \<Rightarrow> string \<Rightarrow> string" where
  "shown d k = (case map_of d k of None \<Rightarrow> [] | Some v \<Rightarrow> py_str v)"

definition init_app :: "string option \<Rightarrow> (nat \<Rightarrow> nat) \<Rightarrow> error option \<times> app" where
  "init_app file src =
     (case read_cfg file of (st, shown_boxes, file') \<Rightarrow>
        left_eq_config
          \<lparr>settings = st, answers_correct = 0, answers_all = 0, stoptimer = False,
           results_cur = [], results_prev = [], time_left = 0,
           operator_var = PStr (shown st ''operator''),
           numbers = replicate (nat MAX_NUMBERS) 0, numbers_in_use = None,
           numbercount_w = shown st ''numbercount'',
           range_lower_w = shown st ''range_lower'',
           range_upper_w = shown st ''range_upper'',
           op_dropdown_w = shown st ''operator'',
           time_entry_w = shown st ''time_limit'',
           uanswer = [], uanswer_focus = False,
           running_active = False, stopped_active = True,
           pending = [], dialogs = shown_boxes, rng = src, rng_pos = 0,
           cfg_file = file'\<rparr>)"

subsection \<open>The rules of the settings, as the specification words them\<close>

text \<open>The dict that \<open>push_settings\<close> hands to \<open>settings_errors\<close>, for any five values.\<close>

definition raw_settings :: "pyval \<Rightarrow> pyval \<Rightarrow> pyval \<Rightarrow> pyval \<Rightarrow> pyval \<Rightarrow> pydict" where
  "raw_settings a b c d e =
     [(''numbercount'', a), (''range_lower'', b), (''range_upper'', c),
      (''operator'', d), (''time_limit'', e)]"

definition rule_numbercount :: "int \<Rightarrow> bool" where
  "rule_numbercount nc = (1 < nc \<and> nc \<le> MAX_NUMBERS)"

definition rule_range :: "int \<Rightarrow> int \<Rightarrow> bool" where
  "rule_range lo hi = (0 \<le> lo \<and> lo \<le> RANGE_LIMIT \<and> 0 \<le> hi \<and> hi \<le> RANGE_LIMIT)"

definition rule_order :: "int \<Rightarrow> int \<Rightarrow> bool" where
  "rule_order lo hi = (lo < hi)"

definition rule_operator :: "pyval \<Rightarrow> bool" where
  "rule_operator op = (op \<in> PStr ` set OPERATORS)"

definition rule_time :: "int \<Rightarrow> bool" where
  "rule_time t = (0 \<le> t \<and> t < MAX_TIME_LIMIT)"

text \<open>One message for each rule that fails, in the order of the rules.\<close>

definition rule_messages :: "int \<Rightarrow> int \<Rightarrow> int \<Rightarrow> pyval \<Rightarrow> int \<Rightarrow> string list" where
  "rule_messages nc lo hi op t =
     (if rule_numbercount nc then [] else [msg_numbercount])
     @ (if rule_range lo hi then [] else [msg_range])
     @ (if rule_order lo hi then [] else [msg_order])
     @ (if rule_operator op then [] else [msg_operator])
     @ (if rule_time t then [] else [msg_time])"

subsection \<open>Sessions\<close>

text \<open>
  Settings that passed \<open>settings_errors\<close>: the five keys in the order of
  \<open>push_settings\<close>, integers for the numeric ones, and the five rules.
\<close>

definition valid_settings :: "pydict \<Rightarrow> bool" where
  "valid_settings d =
     (\<exists>nc lo hi op t.
        d = raw_settings (PInt nc) (PInt lo) (PInt hi) op (PInt t)
        \<and> rule_numbercount nc \<and> rule_range lo hi \<and> rule_order lo hi \<and> rule_operator op
        \<and> rule_time t)"

text \<open>
  A running session, as \<open>start_game\<close> leaves it and \<open>answer_process\<close> keeps it: the
  widgets of the running game are enabled, the timer flag is down, the settings are
  valid and the numbers in use are the last \<open>numbercount\<close> of the \<open>MAX_NUMBERS\<close> IntVars.
\<close>

definition running :: "app \<Rightarrow> bool" where
  "running s =
     (running_active s \<and> \<not> stopped_active s \<and> \<not> stoptimer s
      \<and> valid_settings (settings s)
      \<and> length (numbers s) = nat MAX_NUMBERS
      \<and> (\<exists>nc. get_int (settings s) ''numbercount'' = Inr nc
              \<and> numbers_in_use s = Some (nat (MAX_NUMBERS - nc))))"

text \<open>The values of \<open>n\<close> calls of \<open>randint(lo, hi)\<close> from position \<open>pos\<close> of the source.\<close>

definition draws :: "nat \<Rightarrow> int \<Rightarrow> int \<Rightarrow> (nat \<Rightarrow> nat) \<Rightarrow> nat \<Rightarrow> int list" where
  "draws n lo hi src pos = map (\<lambda>i. lo + int (src (pos + i) mod nat (hi - lo + 1))) [0..<n]"

text \<open>The texts of the four numeric entries parse to these integers.\<close>

definition fields_parse :: "app \<Rightarrow> int \<Rightarrow> int \<Rightarrow> int \<Rightarrow> int \<Rightarrow> bool" where
  "fields_parse s nc lo hi t =
     (int_of_str (numbercount_w s) = Some nc \<and> int_of_str (range_lower_w s) = Some lo
      \<and> int_of_str (range_upper_w s) = Some hi \<and> int_of_str (time_entry_w s) = Some t)"

text \<open>They parse, and the five rules hold of them and of the text of the operator box.\<close>

definition fields_valid :: "app \<Rightarrow> int \<Rightarrow> int \<Rightarrow> int \<Rightarrow> int \<Rightarrow> bool" where
  "fields_valid s nc lo hi t =
     (fields_parse s nc lo hi t
      \<and> rule_numbercount nc \<and> rule_range lo hi \<and> rule_order lo hi
      \<and> rule_operator (PStr (op_dropdown_w s)) \<and> rule_time t)"

text \<open>
  The operands of the equation on display, and the answer that \<open>answer_process\<close>
  computes for it before it looks at the text.
\<close>

definition correct_answer :: "app \<Rightarrow> int option" where
  "correct_answer s =
     (case numbers_in_use s of
        None \<Rightarrow> None
      | Some first \<Rightarrow>
     (case getitem (settings s) ''operator'' of
        Inl _ \<Rightarrow> None
      | Inr op \<Rightarrow>
     (case get_answer (drop first (numbers s)) op of
        Inl _ \<Rightarrow> None
      | Inr (_, answer) \<Rightarrow> Some answer)))"

definition operands :: "app \<Rightarrow> int list" where
  "operands s = (case numbers_in_use s of None \<Rightarrow> [] | Some first \<Rightarrow> drop first (numbers s))"

subsection \<open>A concrete run\<close>

text \<open>
  The program started without a settings file, so with the default settings, and a
  random source; then the Start button pressed: two operands from \<open>[0, 20]\<close>, the
  operator \<open>+\<close>, a time limit of 120.
\<close>

definition ex_src :: "nat \<Rightarrow> nat" where
  "ex_src i = 7 * i + 3"

definition ex_init :: app where
  "ex_init = snd (init_app None ex_src)"

definition ex_running :: app where
  "ex_running = snd (start_game ex_init)"

text \<open>
  What one counted attempt does to a running session \<open>s\<close>: the total goes up by one, the
  number of correct answers too when the attempt was correct, the score on display is
  \<open>correct / total\<close>, no message box is shown, the entry is cleared, and the operands
  are replaced by as many new random numbers from the range of the settings.
\<close>

definition advanced :: "bool \<Rightarrow> app \<Rightarrow> app \<Rightarrow> bool" where
  "advanced correct s s' =
     (answers_all s' = answers_all s + 1
      \<and> answers_correct s' = (if correct then answers_correct s + 1 else answers_correct s)
      \<and> results_cur s' = score_text (answers_correct s') (answers_all s')
      \<and> dialogs s' = dialogs s \<and> uanswer s' = []
      \<and> rng_pos s' = rng_pos s + length (operands s)
      \<and> (\<exists>lo hi. get_int (settings s) ''range_lower'' = Inr lo
            \<and> get_int (settings s) ''range_upper'' = Inr hi
            \<and> operands s' = draws (length (operands s)) lo hi (rng s) (rng_pos s))
      \<and> running s')"

text \<open>The same start of the program with the time limit 1 typed into its entry.\<close>

definition ex_init1 :: app where
  "ex_init1 = ex_init\<lparr>time_entry_w := ''1''\<rparr>"

subsection \<open>Reachable states\<close>

text \<open>The invariant of the two counters.\<close>

definition counters_ok :: "app \<Rightarrow> bool" where
  "counters_ok s = (0 \<le> answers_correct s \<and> answers_correct s \<le> answers_all s)"

text \<open>
  The states the program reaches: it starts with \<open>__init__\<close>; the user edits the
  settings entries while they are enabled, types into the answer entry while it is
  enabled, moves the focus, presses Start, Stop, Help, the submit key or the clear
  key; the event loop runs a scheduled call of \<open>countdown\<close>. An exception in a
  callback is reported by Tk and the program goes on in the state the callback left.
  Quit ends the program: the window is destroyed and no state follows.
\<close>

inductive reachable :: "app \<Rightarrow> bool" where
  init: "fst (init_app file src) = None \<Longrightarrow> reachable (snd (init_app file src))"
| edit: "reachable s \<Longrightarrow> stopped_active s \<Longrightarrow>
         reachable (s\<lparr>numbercount_w := a, range_lower_w := b, range_upper_w := c,
                       op_dropdown_w := d, time_entry_w := e\<rparr>)"
| typing: "reachable s \<Longrightarrow> running_active s \<Longrightarrow> reachable (s\<lparr>uanswer := txt\<rparr>)"
| refocus: "reachable s \<Longrightarrow> running_active s \<or> \<not> f \<Longrightarrow> reachable (s\<lparr>uanswer_focus := f\<rparr>)"
| clear_pressed: "reachable s \<Longrightarrow> reachable (clear_key s)"
| help_pressed: "reachable s \<Longrightarrow> reachable (help_button s)"
| start: "reachable s \<Longrightarrow> reachable (snd (start_button s))"
| stop: "reachable s \<Longrightarrow> reachable (stop_button s)"
| submit: "reachable s \<Longrightarrow> reachable (snd (submit_key s))"
| tick: "reachable s \<Longrightarrow> reachable (fire_tick s)"

text \<open>The concrete run after the answer \<open>" 13 "\<close> was typed and submitted: the score is 1 / 1.\<close>

definition ex_answered :: app where
  "ex_answered = snd (submit_key (ex_running\<lparr>uanswer := '' 13 ''\<rparr>))"

text \<open>One step of reading a decimal numeral from the left.\<close>

definition dec_step :: "nat \<Rightarrow> char \<Rightarrow> nat" where
  "dec_step a c = 10 * a + digit_val c"

text \<open>
  Two runs with a call of \<open>countdown\<close> left over from a session before. In the first
  the concrete run is stopped at once, its call with 119 still scheduled, and the time
  limit 1 is typed. In the second a session with the time limit 1 is stopped at once,
  its call with 0 still scheduled, and the time limit 800 is typed.
\<close>

definition ex_stale1 :: app where
  "ex_stale1 =
     (stop_button ex_running)\<lparr>numbercount_w := ''2'', range_lower_w := ''0'',
       range_upper_w := ''20'', op_dropdown_w := ''+'', time_entry_w := ''1''\<rparr>"

definition ex_stale800 :: app where
  "ex_stale800 =
     (stop_button (snd (start_button ex_init1)))\<lparr>numbercount_w := ''2'', range_lower_w := ''0'',
       range_upper_w := ''20'', op_dropdown_w := ''+'', time_entry_w := ''800''\<rparr>"

section \<open>Properties\<close>

subsection \<open>\<open>get_answer\<close>\<close>

lemma sub_loop_foldl: "sub_loop base xs = foldl (-) base xs"
  by (induction xs arbitrary: base) simp_all

lemma mul_loop_foldl: "mul_loop base xs = foldl (*) base xs"
  by (induction xs arbitrary: base) simp_all

lemma mul_loop_prod: "mul_loop base xs = prod_mset (mset (base # xs))"
  by (induction xs arbitrary: base) (simp_all add: mult.assoc)

lemma get_answer_times_perm:
  assumes "mset ys = mset zs"
  shows "get_answer ys (PStr [CHR 0xB7]) = get_answer zs (PStr [CHR 0xB7])"
proof (cases ys)
  case Nil
  with assms show ?thesis by simp
next
  case (Cons y ys')
  with assms obtain z zs' where zs: "zs = z # zs'"
    by (cases zs) auto
  have "mul_loop y ys' = mul_loop z zs'"
    using assms Cons zs by (simp only: mul_loop_prod)
  then show ?thesis
    by (simp add: get_answer_def Cons zs)
qed

text \<open>
  Claim C1, as it holds of the code. For a non-empty list of integers \<open>get_answer\<close>
  returns, without a message box, the sum of the operands for \<open>+\<close>, the left fold of
  subtraction (the first operand minus each later one, in order) for \<open>-\<close>, and the left
  fold of multiplication for the dot. The result of the subtraction depends on the
  order of the operands (\<open>[1, 2]\<close> against \<open>[2, 1]\<close>); the result of the multiplication
  does not: every reordering of the operands has the same product.
\<close>

theorem get_answer_folds:
  "get_answer (x # xs) (PStr ''+'') = Inr ([], sum_list (x # xs))
   \<and> get_answer (x # xs) (PStr ''-'') = Inr ([], foldl (-) x xs)
   \<and> get_answer (x # xs) (PStr [CHR 0xB7]) = Inr ([], foldl (*) x xs)
   \<and> get_answer [1, 2] (PStr ''-'') \<noteq> get_answer [2, 1] (PStr ''-'')
   \<and> (mset ys = mset (x # xs) \<longrightarrow>
        get_answer ys (PStr [CHR 0xB7]) = get_answer (x # xs) (PStr [CHR 0xB7]))"
proof -
  have "get_answer (x # xs) (PStr ''-'') = Inr ([], foldl (-) x xs)"
    by (simp add: get_answer_def sub_loop_foldl)
  moreover have "get_answer (x # xs) (PStr [CHR 0xB7]) = Inr ([], foldl (*) x xs)"
    by (simp add: get_answer_def mul_loop_foldl)
  moreover have "get_answer [1, 2] (PStr ''-'') \<noteq> get_answer [2, 1] (PStr ''-'')"
    by (simp add: get_answer_def)
  ultimately show ?thesis
    using get_answer_times_perm [of ys "x # xs"] by (simp add: get_answer_def)
qed

text \<open>The operands 2, 3, 4, and their reordering 4, 2, 3 for the product.\<close>

theorem get_answer_folds_witness:
  "get_answer [2, 3, 4] (PStr ''+'') = Inr ([], 9)
   \<and> get_answer [2, 3, 4] (PStr ''-'') = Inr ([], - 5)
   \<and> get_answer [2, 3, 4] (PStr [CHR 0xB7]) = Inr ([], 24)
   \<and> get_answer [4, 2, 3] (PStr [CHR 0xB7]) = Inr ([], 24)"
  using get_answer_folds [of 2 "[3, 4]" "[4, 2, 3]"] by simp

text \<open>
  Claim C1 as stated has the product depend on the order of the operands. It does not:
  2 and 3 give 6 in both orders, and no two orderings of the same operands give
  different results for the dot.
\<close>

theorem get_answer_times_order_counterexample:
  "get_answer [2, 3] (PStr [CHR 0xB7]) = Inr ([], 6)
   \<and> get_answer [3, 2] (PStr [CHR 0xB7]) = Inr ([], 6)
   \<and> \<not> (\<exists>ys zs. mset ys = mset zs
         \<and> get_answer ys (PStr [CHR 0xB7]) \<noteq> get_answer zs (PStr [CHR 0xB7]))"
proof -
  have "get_answer [2, 3] (PStr [CHR 0xB7]) = Inr ([], 6)"
    "get_answer [3, 2] (PStr [CHR 0xB7]) = Inr ([], 6)"
    by (simp_all add: get_answer_def)
  then show ?thesis
    using get_answer_times_perm by blast
qed

text \<open>
  Claim C6, as it holds of the code. For every operand list and every operator value
  other than the three glyphs, \<open>get_answer\<close> shows the error box "No" and then returns
  the value 0: the call is not aborted, and its caller goes on with 0 as the answer.
\<close>

theorem get_answer_other_operator:
  "op \<noteq> PStr ''+'' \<and> op \<noteq> PStr ''-'' \<and> op \<noteq> PStr [CHR 0xB7] \<longrightarrow>
   get_answer nums op =
     Inr ([ShowError ''No'' ''This really shouldn't happen. Bug report time.''], 0)"
  by (simp add: get_answer_def)

text \<open>An integer as operator, on the empty operand list.\<close>

theorem get_answer_other_operator_witness:
  "get_answer [] (PInt 7) =
     Inr ([ShowError ''No'' ''This really shouldn't happen. Bug report time.''], 0)"
  using get_answer_other_operator [of "PInt 7" "[]"] by simp

text \<open>
  Claim C6 as stated has the call end in an error and return no default value. With the
  operator \<open>/\<close> on the operands 3 and 4 it returns normally, with the value 0.
\<close>

theorem get_answer_slash_counterexample:
  "get_answer [3, 4] (PStr ''/'') =
     Inr ([ShowError ''No'' ''This really shouldn't happen. Bug report time.''], 0)"
  by (simp add: get_answer_def)

subsection \<open>\<open>settings_errors\<close>\<close>

lemma op_in_OPERATORS_rule: "op_in_OPERATORS op = rule_operator op"
  by (cases op) (auto simp: op_in_OPERATORS_def rule_operator_def)

lemma int_loop_raw_ok:
  assumes "py_int a = Some nc" "py_int b = Some lo" "py_int c = Some hi" "py_int e = Some t"
  shows "int_loop (map fst (raw_settings a b c d e)) (raw_settings a b c d e) =
           Inr (True, raw_settings (PInt nc) (PInt lo) (PInt hi) d (PInt t))"
  using assms by (simp add: raw_settings_def ebind_def getitem_def)

lemma int_loop_raw_abort:
  assumes "py_int a = None \<or> py_int b = None \<or> py_int c = None \<or> py_int e = None"
  shows "\<exists>s'. int_loop (map fst (raw_settings a b c d e)) (raw_settings a b c d e) = Inr (False, s')"
  using assms by (auto simp add: raw_settings_def ebind_def getitem_def split: option.splits)

lemma settings_errors_raw_ok:
  assumes "py_int a = Some nc" "py_int b = Some lo" "py_int c = Some hi" "py_int e = Some t"
  shows "settings_errors (raw_settings a b c d e) =
           Inr (rule_messages nc lo hi d t, raw_settings (PInt nc) (PInt lo) (PInt hi) d (PInt t))"
proof -
  have look: "get_int (raw_settings (PInt nc) (PInt lo) (PInt hi) d (PInt t)) ''numbercount'' = Inr nc"
    "get_int (raw_settings (PInt nc) (PInt lo) (PInt hi) d (PInt t)) ''range_lower'' = Inr lo"
    "get_int (raw_settings (PInt nc) (PInt lo) (PInt hi) d (PInt t)) ''range_upper'' = Inr hi"
    "getitem (raw_settings (PInt nc) (PInt lo) (PInt hi) d (PInt t)) ''operator'' = Inr d"
    "get_int (raw_settings (PInt nc) (PInt lo) (PInt hi) d (PInt t)) ''time_limit'' = Inr t"
    by (simp_all add: raw_settings_def get_int_def getitem_def ebind_def)
  have c1: "(if \<not> (1 < nc \<and> nc \<le> MAX_NUMBERS) then [msg_numbercount] else [])
      = (if rule_numbercount nc then [] else [msg_numbercount])"
    by (simp add: rule_numbercount_def)
  have c2: "(if \<not> (0 \<le> lo \<and> lo \<le> RANGE_LIMIT) \<or> \<not> (0 \<le> hi \<and> hi \<le> RANGE_LIMIT)
         then [msg_range] else []) = (if rule_range lo hi then [] else [msg_range])"
    by (auto simp: rule_range_def)
  have c3: "(if lo \<ge> hi then [msg_order] else []) = (if rule_order lo hi then [] else [msg_order])"
    by (auto simp: rule_order_def)
  have c4: "(if \<not> op_in_OPERATORS d then [msg_operator] else [])
      = (if rule_operator d then [] else [msg_operator])"
    by (simp add: op_in_OPERATORS_rule)
  have c5: "(if \<not> (-1 < t \<and> t < MAX_TIME_LIMIT) then [msg_time] else [])
      = (if rule_time t then [] else [msg_time])"
    by (auto simp: rule_time_def)
  show ?thesis
    unfolding settings_errors_def int_loop_raw_ok [OF assms] rule_messages_def
    by (simp only: ebind_def look sum.case prod.case not_True_eq_False if_False c1 c2 c3 c4 c5)
qed

lemma rule_messages_empty:
  "rule_messages nc lo hi op t = [] \<longleftrightarrow>
     rule_numbercount nc \<and> rule_range lo hi \<and> rule_order lo hi \<and> rule_operator op \<and> rule_time t"
  by (simp add: rule_messages_def)

text \<open>
  Claim C2. Take the dict of the five settings with any values. When the four numeric
  values parse as integers, \<open>settings_errors\<close> returns the dict with these integers and
  one message for every rule that fails, in the order of the rules; so its list of
  errors is empty exactly when all five rules hold: \<open>1 < numbercount \<le> MAX_NUMBERS\<close>,
  both range ends in \<open>[0, RANGE_LIMIT]\<close>, \<open>range_lower < range_upper\<close>, the operator in
  \<open>OPERATORS\<close>, \<open>0 \<le> time_limit < MAX_TIME_LIMIT\<close>. When a numeric value does not parse,
  the result is the single message that the fields must be integers.
\<close>

theorem settings_errors_rules:
  "(py_int a = Some nc \<and> py_int b = Some lo \<and> py_int c = Some hi \<and> py_int e = Some t \<longrightarrow>
      settings_errors (raw_settings a b c d e) =
        Inr (rule_messages nc lo hi d t, raw_settings (PInt nc) (PInt lo) (PInt hi) d (PInt t))
      \<and> ((\<exists>s'. settings_errors (raw_settings a b c d e) = Inr ([], s')) \<longleftrightarrow>
           rule_numbercount nc \<and> rule_range lo hi \<and> rule_order lo hi \<and> rule_operator d
           \<and> rule_time t))
   \<and> (py_int a = None \<or> py_int b = None \<or> py_int c = None \<or> py_int e = None \<longrightarrow>
        (\<exists>s'. settings_errors (raw_settings a b c d e) = Inr ([msg_integers], s')))"
proof (intro conjI impI)
  assume ok: "py_int a = Some nc \<and> py_int b = Some lo \<and> py_int c = Some hi \<and> py_int e = Some t"
  then show eq: "settings_errors (raw_settings a b c d e) =
      Inr (rule_messages nc lo hi d t, raw_settings (PInt nc) (PInt lo) (PInt hi) d (PInt t))"
    by (simp add: settings_errors_raw_ok)
  show "(\<exists>s'. settings_errors (raw_settings a b c d e) = Inr ([], s')) \<longleftrightarrow>
      rule_numbercount nc \<and> rule_range lo hi \<and> rule_order lo hi \<and> rule_operator d \<and> rule_time t"
    unfolding eq using rule_messages_empty [of nc lo hi d t] by auto
next
  assume "py_int a = None \<or> py_int b = None \<or> py_int c = None \<or> py_int e = None"
  from int_loop_raw_abort [OF this, of d] obtain s' where
    "int_loop (map fst (raw_settings a b c d e)) (raw_settings a b c d e) = Inr (False, s')"
    by blast
  then show "\<exists>s'. settings_errors (raw_settings a b c d e) = Inr ([msg_integers], s')"
    by (simp add: settings_errors_def ebind_def)
qed

lemma py_int_examples: "py_int (PStr ''1'') = Some 1" "py_int (PStr ''5'') = Some 5"
  "py_int (PStr ''2000'') = Some 2000" "py_int (PStr ''900'') = Some 900" "py_int (PStr ''x'') = None"
  by code_simp+

text \<open>
  The fields 1, 5, 2000, \<open>/\<close>, 900 break four rules and give four messages; with \<open>x\<close> as
  lower range the only message is the one about integers.
\<close>

theorem settings_errors_rules_witness:
  "settings_errors (raw_settings (PStr ''1'') (PStr ''5'') (PStr ''2000'') (PStr ''/'') (PStr ''900''))
     = Inr ([msg_numbercount, msg_range, msg_operator, msg_time],
            raw_settings (PInt 1) (PInt 5) (PInt 2000) (PStr ''/'') (PInt 900))
   \<and> (\<exists>s'. settings_errors (raw_settings (PStr ''1'') (PStr ''x'') (PStr ''2000'') (PStr ''/'') (PStr ''900''))
        = Inr ([msg_integers], s'))"
proof -
  have r: "rule_messages 1 5 2000 (PStr ''/'') 900 = [msg_numbercount, msg_range, msg_operator, msg_time]"
    by (simp add: rule_messages_def rule_numbercount_def rule_range_def rule_order_def
        rule_operator_def rule_time_def MAX_NUMBERS_def RANGE_LIMIT_def MAX_TIME_LIMIT_def
        OPERATORS_def)
  show ?thesis
    using settings_errors_rules [of "PStr ''1''" 1 "PStr ''5''" 5 "PStr ''2000''" 2000 "PStr ''900''" 900 "PStr ''/''"]
      settings_errors_rules [of "PStr ''1''" 0 "PStr ''x''" 0 "PStr ''2000''" 0 "PStr ''900''" 0 "PStr ''/''"]
    by (simp add: py_int_examples r)
qed

subsection \<open>Running sessions: \<open>set_new_calculation\<close>, \<open>answer_process\<close>, \<open>start_game\<close>\<close>

lemma rand_loop_draws:
  "lo \<le> hi \<Longrightarrow> rand_loop n (PInt lo) (PInt hi) src pos = Inr (draws n lo hi src pos)"
proof (induction n arbitrary: pos)
  case 0
  then show ?case by (simp add: draws_def)
next
  case (Suc n)
  have "[0..<Suc n] = 0 # map Suc [0..<n]"
    by (simp add: upt_conv_Cons map_Suc_upt del: upt_Suc)
  then have "draws (Suc n) lo hi src pos =
      (lo + int (src pos mod nat (hi - lo + 1))) # draws n lo hi src (Suc pos)"
    by (simp add: draws_def comp_def del: upt_Suc)
  with Suc show ?case
    by (simp add: ebind_def randint_def)
qed

lemma length_draws: "length (draws n lo hi src pos) = n"
  by (simp add: draws_def)

lemma draws_range:
  assumes "lo \<le> hi" "r \<in> set (draws n lo hi src pos)"
  shows "lo \<le> r \<and> r \<le> hi"
proof -
  from assms(2) obtain i where r: "r = lo + int (src (pos + i) mod nat (hi - lo + 1))"
    by (auto simp: draws_def)
  have "src (pos + i) mod nat (hi - lo + 1) < nat (hi - lo + 1)"
    using assms(1) by (intro mod_less_divisor) simp
  then show ?thesis
    using assms(1) r by linarith
qed

lemma valid_settings_lookup:
  assumes "d = raw_settings (PInt nc) (PInt lo) (PInt hi) op (PInt t)"
  shows "getitem d ''numbercount'' = Inr (PInt nc)" "getitem d ''range_lower'' = Inr (PInt lo)"
    "getitem d ''range_upper'' = Inr (PInt hi)" "getitem d ''operator'' = Inr op"
    "getitem d ''time_limit'' = Inr (PInt t)"
    "get_int d ''numbercount'' = Inr nc" "get_int d ''time_limit'' = Inr t"
  using assms by (simp_all add: raw_settings_def getitem_def get_int_def ebind_def)

lemma set_new_calculation_ok:
  assumes d: "settings s = raw_settings (PInt nc) (PInt lo) (PInt hi) op (PInt t)"
    and "lo \<le> hi" and f: "numbers_in_use s = Some first"
  shows "set_new_calculation s =
    (None, clear_field (s\<lparr>numbers := take first (numbers s)
                               @ draws (length (numbers s) - first) lo hi (rng s) (rng_pos s),
                            rng_pos := rng_pos s + (length (numbers s) - first)\<rparr>))"
  using assms(2)
  by (simp add: set_new_calculation_def valid_settings_lookup [OF d] f rand_loop_draws length_draws)

lemma set_new_calculation_counters:
  "answers_correct (snd (set_new_calculation s)) = answers_correct s"
  "answers_all (snd (set_new_calculation s)) = answers_all s"
  "results_cur (snd (set_new_calculation s)) = results_cur s"
  "results_prev (snd (set_new_calculation s)) = results_prev s"
  by (simp_all add: set_new_calculation_def clear_field_def split: sum.splits option.splits)

lemma rule_operator_cases:
  "rule_operator op \<Longrightarrow> op = PStr ''+'' \<or> op = PStr ''-'' \<or> op = PStr [CHR 0xB7]"
  by (auto simp: rule_operator_def OPERATORS_def)

lemma get_answer_valid:
  assumes "rule_operator op" "nums \<noteq> []"
  shows "\<exists>v. get_answer nums op = Inr ([], v)"
  using rule_operator_cases [OF assms(1)] assms(2)
  by (cases nums) (auto simp: get_answer_def)

lemma runningE:
  assumes "running s"
  obtains nc lo hi op t where
    "settings s = raw_settings (PInt nc) (PInt lo) (PInt hi) op (PInt t)"
    "rule_numbercount nc" "rule_range lo hi" "rule_order lo hi" "rule_operator op" "rule_time t"
    "numbers_in_use s = Some (nat (MAX_NUMBERS - nc))"
    "length (numbers s) = nat MAX_NUMBERS" "running_active s" "\<not> stopped_active s"
    "\<not> stoptimer s"
proof -
  from assms obtain nc lo hi op t where d:
    "settings s = raw_settings (PInt nc) (PInt lo) (PInt hi) op (PInt t)"
    and r: "rule_numbercount nc" "rule_range lo hi" "rule_order lo hi" "rule_operator op" "rule_time t"
    by (auto simp: running_def valid_settings_def)
  from assms obtain nc' where "get_int (settings s) ''numbercount'' = Inr nc'"
    "numbers_in_use s = Some (nat (MAX_NUMBERS - nc'))"
    by (auto simp: running_def)
  then have "numbers_in_use s = Some (nat (MAX_NUMBERS - nc))"
    by (simp add: valid_settings_lookup [OF d])
  with d r assms that show thesis
    by (simp add: running_def)
qed

lemma running_set_new_calculation:
  assumes "running s"
  shows "\<exists>s'. set_new_calculation s = (None, s') \<and> running s'
      \<and> answers_correct s' = answers_correct s \<and> answers_all s' = answers_all s
      \<and> results_cur s' = results_cur s \<and> results_prev s' = results_prev s
      \<and> dialogs s' = dialogs s \<and> pending s' = pending s \<and> time_left s' = time_left s
      \<and> uanswer s' = [] \<and> numbers_in_use s' = numbers_in_use s
      \<and> length (operands s') = length (operands s)
      \<and> rng_pos s' = rng_pos s + length (operands s)
      \<and> (\<forall>r \<in> set (operands s'). \<exists>lo hi. get_int (settings s) ''range_lower'' = Inr lo
            \<and> get_int (settings s) ''range_upper'' = Inr hi \<and> lo \<le> r \<and> r \<le> hi)"
proof -
  from assms obtain nc lo hi op t where d:
    "settings s = raw_settings (PInt nc) (PInt lo) (PInt hi) op (PInt t)"
    and r: "rule_numbercount nc" "rule_order lo hi"
    and f: "numbers_in_use s = Some (nat (MAX_NUMBERS - nc))"
    and l: "length (numbers s) = nat MAX_NUMBERS" and a: "running_active s"
    by (rule runningE)
  from r have le: "lo \<le> hi" and nc: "1 < nc" "nc \<le> 5"
    by (simp_all add: rule_order_def rule_numbercount_def MAX_NUMBERS_def)
  let ?first = "nat (MAX_NUMBERS - nc)"
  let ?rs = "draws (length (numbers s) - ?first) lo hi (rng s) (rng_pos s)"
  let ?s' = "s\<lparr>numbers := take ?first (numbers s) @ ?rs,
              rng_pos := rng_pos s + (length (numbers s) - ?first), uanswer := []\<rparr>"
  have eq: "set_new_calculation s = (None, ?s')"
    using a by (simp add: set_new_calculation_ok [OF d le f] clear_field_def)
  have first: "?first \<le> length (numbers s)"
    using nc l by (simp add: MAX_NUMBERS_def)
  have ops: "operands ?s' = ?rs"
    using first by (simp add: operands_def f)
  have lens: "length (operands s) = length (numbers s) - ?first"
    by (simp add: operands_def f)
  have look: "get_int (settings s) ''range_lower'' = Inr lo" "get_int (settings s) ''range_upper'' = Inr hi"
    by (simp_all add: d raw_settings_def get_int_def getitem_def ebind_def)
  have "running ?s'"
    using assms first l by (simp add: running_def length_draws)
  moreover have "\<forall>r \<in> set (operands ?s'). lo \<le> r \<and> r \<le> hi"
    unfolding ops using draws_range [OF le] by blast
  ultimately show ?thesis
    unfolding eq using look by (simp add: ops lens length_draws f)
qed

lemma running_counters [simp]:
  "running (s\<lparr>answers_all := a\<rparr>) = running s"
  "running (s\<lparr>answers_correct := c\<rparr>) = running s"
  "running (s\<lparr>results_cur := r\<rparr>) = running s"
  "running (s\<lparr>dialogs := ds\<rparr>) = running s"
  by (simp_all add: running_def)

lemma running_correct_answer:
  assumes "running s"
  shows "\<exists>first op v. numbers_in_use s = Some first \<and> getitem (settings s) ''operator'' = Inr op
     \<and> get_answer (drop first (numbers s)) op = Inr ([], v) \<and> correct_answer s = Some v"
proof -
  from assms obtain nc lo hi op t where d:
    "settings s = raw_settings (PInt nc) (PInt lo) (PInt hi) op (PInt t)"
    and r: "rule_numbercount nc" "rule_operator op"
    and f: "numbers_in_use s = Some (nat (MAX_NUMBERS - nc))"
    and l: "length (numbers s) = nat MAX_NUMBERS"
    by (rule runningE)
  from r(1) l have "drop (nat (MAX_NUMBERS - nc)) (numbers s) \<noteq> []"
    by (auto simp: rule_numbercount_def MAX_NUMBERS_def)
  from get_answer_valid [OF r(2) this] obtain v where
    v: "get_answer (drop (nat (MAX_NUMBERS - nc)) (numbers s)) op = Inr ([], v)" ..
  then show ?thesis
    by (simp add: f valid_settings_lookup [OF d] correct_answer_def)
qed

lemma advance_turn_eq:
  "advance_turn True s =
     set_new_calculation
       (s\<lparr>answers_all := answers_all s + 1, answers_correct := answers_correct s + 1,
          results_cur := score_text (answers_correct s + 1) (answers_all s + 1)\<rparr>)"
  "advance_turn False s =
     set_new_calculation
       (s\<lparr>answers_all := answers_all s + 1,
          results_cur := score_text (answers_correct s) (answers_all s + 1)\<rparr>)"
  by (simp_all add: advance_turn_def Let_def)

lemma running_advance_turn:
  assumes "running s"
  shows "fst (advance_turn correct s) = None"
proof (cases correct)
  case True
  have "running (s\<lparr>answers_all := answers_all s + 1, answers_correct := answers_correct s + 1,
          results_cur := score_text (answers_correct s + 1) (answers_all s + 1)\<rparr>)"
    using assms by simp
  from running_set_new_calculation [OF this] show ?thesis
    using True by (auto simp: advance_turn_eq)
next
  case False
  have "running (s\<lparr>answers_all := answers_all s + 1,
          results_cur := score_text (answers_correct s) (answers_all s + 1)\<rparr>)"
    using assms by simp
  from running_set_new_calculation [OF this] show ?thesis
    using False by (auto simp: advance_turn_eq)
qed

lemma answer_process_running:
  assumes "running s" and v: "correct_answer s = Some v"
  shows "answer_process txt s =
     (case int_of_str txt of
        Some n \<Rightarrow> advance_turn (n = v) s
      | None \<Rightarrow> if txt = [] then advance_turn False s
                else (None, s\<lparr>uanswer := [], dialogs := dialogs s @
                       [ShowError ''Bad input'' ''Input can only be an integer or empty'']\<rparr>))"
proof -
  from running_correct_answer [OF assms(1)] v obtain first op where
    f: "numbers_in_use s = Some first" and o: "getitem (settings s) ''operator'' = Inr op"
    and g: "get_answer (drop first (numbers s)) op = Inr ([], v)"
    by auto
  have a: "running_active s"
    using assms(1) by (simp add: running_def)
  show ?thesis
  proof (cases "int_of_str txt")
    case None
    then show ?thesis
      using a by (simp add: answer_process_def f o g bad_input_def clear_field_def)
  next
    case (Some n)
    then show ?thesis
      using running_advance_turn [OF assms(1), of "n = v"]
      by (simp add: answer_process_def f o g)
  qed
qed

lemma temp_settings_raw:
  "temp_settings s = raw_settings (PStr (numbercount_w s)) (PStr (range_lower_w s))
     (PStr (range_upper_w s)) (PStr (op_dropdown_w s)) (PStr (time_entry_w s))"
  by (simp add: temp_settings_def raw_settings_def)

lemma settings_errors_raw_abort:
  assumes "py_int a = None \<or> py_int b = None \<or> py_int c = None \<or> py_int e = None"
  shows "\<exists>s'. settings_errors (raw_settings a b c d e) = Inr ([msg_integers], s')"
proof -
  from int_loop_raw_abort [OF assms, of d] obtain s' where
    "int_loop (map fst (raw_settings a b c d e)) (raw_settings a b c d e) = Inr (False, s')"
    by blast
  then show ?thesis
    by (simp add: settings_errors_def ebind_def)
qed

lemma push_settings_valid:
  assumes "fields_valid s nc lo hi t"
  shows "push_settings b s =
     Inr (True, s\<lparr>settings := raw_settings (PInt nc) (PInt lo) (PInt hi)
                                   (PStr (op_dropdown_w s)) (PInt t)\<rparr>)"
proof -
  from assms have p: "py_int (PStr (numbercount_w s)) = Some nc"
    "py_int (PStr (range_lower_w s)) = Some lo" "py_int (PStr (range_upper_w s)) = Some hi"
    "py_int (PStr (time_entry_w s)) = Some t"
    by (simp_all add: fields_valid_def fields_parse_def py_int_def)
  from assms have "rule_messages nc lo hi (PStr (op_dropdown_w s)) t = []"
    by (simp add: rule_messages_empty fields_valid_def)
  then show ?thesis
    by (simp add: push_settings_def temp_settings_raw settings_errors_raw_ok [OF p] ebind_def)
qed

lemma push_settings_cases:
  "(\<exists>nc lo hi t. fields_valid s nc lo hi t)
   \<or> (\<exists>errors. errors \<noteq> [] \<and> push_settings b s =
         Inr (False, if b then s\<lparr>dialogs := dialogs s @
           [ShowError ''Input error''
              (''The following errors were found:'' @ nl @ nl @ py_join (nl @ nl) errors)]\<rparr>
           else s))"
proof (cases "\<exists>nc lo hi t. fields_parse s nc lo hi t")
  case True
  then obtain nc lo hi t where fp: "fields_parse s nc lo hi t"
    by blast
  then have p: "py_int (PStr (numbercount_w s)) = Some nc"
    "py_int (PStr (range_lower_w s)) = Some lo" "py_int (PStr (range_upper_w s)) = Some hi"
    "py_int (PStr (time_entry_w s)) = Some t"
    by (simp_all add: fields_parse_def py_int_def)
  let ?errors = "rule_messages nc lo hi (PStr (op_dropdown_w s)) t"
  show ?thesis
  proof (cases "?errors = []")
    case True
    with fp have "fields_valid s nc lo hi t"
      by (simp add: rule_messages_empty fields_valid_def)
    then show ?thesis by blast
  next
    case False
    then have "?errors \<noteq> [] \<and> push_settings b s =
         Inr (False, if b then s\<lparr>dialogs := dialogs s @
           [ShowError ''Input error''
              (''The following errors were found:'' @ nl @ nl @ py_join (nl @ nl) ?errors)]\<rparr>
           else s)"
      by (cases b)
        (simp_all add: push_settings_def temp_settings_raw settings_errors_raw_ok [OF p] ebind_def)
    then show ?thesis by blast
  qed
next
  case False
  then have "py_int (PStr (numbercount_w s)) = None \<or> py_int (PStr (range_lower_w s)) = None
      \<or> py_int (PStr (range_upper_w s)) = None \<or> py_int (PStr (time_entry_w s)) = None"
    by (auto simp: fields_parse_def py_int_def)
  from settings_errors_raw_abort [OF this, of "PStr (op_dropdown_w s)"] obtain s' where
    e: "settings_errors (temp_settings s) = Inr ([msg_integers], s')"
    by (auto simp: temp_settings_raw)
  have "[msg_integers] \<noteq> [] \<and> push_settings b s =
         Inr (False, if b then s\<lparr>dialogs := dialogs s @
           [ShowError ''Input error''
              (''The following errors were found:'' @ nl @ nl @ py_join (nl @ nl) [msg_integers])]\<rparr>
           else s)"
    by (cases b) (simp_all add: push_settings_def e ebind_def)
  then show ?thesis by blast
qed

lemma left_eq_config_valid:
  assumes d: "settings s = raw_settings (PInt nc) (PInt lo) (PInt hi) op (PInt t)"
    and "nc \<le> MAX_NUMBERS"
  shows "left_eq_config s = (None, s\<lparr>operator_var := op\<rparr>)"
  using assms(2)
  by (simp add: left_eq_config_def valid_settings_lookup [OF d] Let_def MAX_NUMBERS_def)

lemma start_game_setup_valid:
  assumes d: "settings s = raw_settings (PInt nc) (PInt lo) (PInt hi) op (PInt t)"
    and r: "rule_numbercount nc" "rule_order lo hi"
    and l: "length (numbers s) = nat MAX_NUMBERS"
  shows "\<exists>s'. start_game_setup s = (None, s') \<and> settings s' = settings s
    \<and> running_active s' \<and> \<not> stopped_active s' \<and> \<not> stoptimer s'
    \<and> numbers_in_use s' = Some (nat (MAX_NUMBERS - nc))
    \<and> length (numbers s') = nat MAX_NUMBERS
    \<and> answers_correct s' = answers_correct s \<and> answers_all s' = answers_all s
    \<and> results_cur s' = []
    \<and> results_prev s' = (if results_cur s \<noteq> [] then results_cur s else results_prev s)
    \<and> pending s' = pending s \<and> time_left s' = time_left s \<and> dialogs s' = dialogs s
    \<and> rng s' = rng s \<and> rng_pos s' = rng_pos s + nat nc \<and> uanswer s' = []
    \<and> uanswer_focus s' = uanswer_focus s \<and> cfg_file s' = cfg_file s
    \<and> numbercount_w s' = numbercount_w s \<and> range_lower_w s' = range_lower_w s
    \<and> range_upper_w s' = range_upper_w s \<and> op_dropdown_w s' = op_dropdown_w s
    \<and> time_entry_w s' = time_entry_w s"
proof -
  from r have nc: "1 < nc" "nc \<le> 5" and le: "lo \<le> hi"
    by (simp_all add: rule_numbercount_def rule_order_def MAX_NUMBERS_def)
  define first where "first = nat (MAX_NUMBERS - nc)"
  define s4 where "s4 = s\<lparr>operator_var := op, stopped_active := False, running_active := True,
    numbers_in_use := Some first, stoptimer := False\<rparr>"
  define s5 where "s5 = (if results_cur s4 \<noteq> []
    then s4\<lparr>results_prev := results_cur s4, results_cur := []\<rparr> else s4)"
  have lec: "left_eq_config s = (None, s\<lparr>operator_var := op\<rparr>)"
    using nc by (intro left_eq_config_valid [OF d]) (simp add: MAX_NUMBERS_def)
  have sl: "slice_start (MAX_NUMBERS - nc) (length (numbers s)) = first"
    using nc l by (simp add: slice_start_def first_def MAX_NUMBERS_def)
  have "start_game_setup s = set_new_calculation s5"
    by (simp add: start_game_setup_def lec andthen_def valid_settings_lookup [OF d] Let_def sl
        s4_def s5_def)
  moreover have d5: "settings s5 = raw_settings (PInt nc) (PInt lo) (PInt hi) op (PInt t)"
    by (simp add: s5_def s4_def d)
  moreover have f5: "numbers_in_use s5 = Some first"
    by (simp add: s5_def s4_def)
  ultimately have eq: "start_game_setup s =
      (None, clear_field (s5\<lparr>numbers := take first (numbers s5)
                               @ draws (length (numbers s5) - first) lo hi (rng s5) (rng_pos s5),
                            rng_pos := rng_pos s5 + (length (numbers s5) - first)\<rparr>))"
    by (simp add: set_new_calculation_ok [OF d5 le f5])
  have sum: "first + nat nc = 5"
    using nc by (simp add: first_def MAX_NUMBERS_def)
  have len: "length (numbers s5) = 5" "first \<le> 5" "5 - first = nat nc"
    using l nc by (simp_all add: s5_def s4_def first_def MAX_NUMBERS_def)
  have fm: "nat (MAX_NUMBERS - nc) = first" "nat MAX_NUMBERS = 5"
    by (simp_all add: first_def MAX_NUMBERS_def)
  show ?thesis
    unfolding eq fm using len sum
    by (simp add: clear_field_def s5_def s4_def length_draws)
qed

lemma start_game_valid:
  assumes v: "fields_valid s nc lo hi t" and l: "length (numbers s) = nat MAX_NUMBERS"
  shows "\<exists>s'. start_game s = (None, s') \<and> running s'
    \<and> settings s' = raw_settings (PInt nc) (PInt lo) (PInt hi) (PStr (op_dropdown_w s)) (PInt t)
    \<and> numbers_in_use s' = Some (nat (MAX_NUMBERS - nc))
    \<and> answers_correct s' = answers_correct s \<and> answers_all s' = answers_all s
    \<and> results_cur s' = []
    \<and> results_prev s' = (if results_cur s \<noteq> [] then results_cur s else results_prev s)
    \<and> pending s' = (if t \<noteq> 0 then pending s @ [t - 1] else pending s)
    \<and> time_left s' = (if t \<noteq> 0 then t - 1 else time_left s)
    \<and> dialogs s' = dialogs s \<and> rng s' = rng s \<and> rng_pos s' = rng_pos s + nat nc
    \<and> uanswer s' = [] \<and> uanswer_focus s' \<and> cfg_file s' = cfg_file s
    \<and> numbercount_w s' = numbercount_w s \<and> range_lower_w s' = range_lower_w s
    \<and> range_upper_w s' = range_upper_w s \<and> op_dropdown_w s' = op_dropdown_w s
    \<and> time_entry_w s' = time_entry_w s"
proof -
  let ?d = "raw_settings (PInt nc) (PInt lo) (PInt hi) (PStr (op_dropdown_w s)) (PInt t)"
  from v have r: "rule_numbercount nc" "rule_order lo hi" and t: "0 \<le> t"
    and vd: "valid_settings ?d"
    unfolding valid_settings_def fields_valid_def rule_time_def by blast+
  let ?s1 = "s\<lparr>settings := ?d\<rparr>"
  have d1: "settings ?s1 = ?d" and l1: "length (numbers ?s1) = nat MAX_NUMBERS"
    using l by simp_all
  from start_game_setup_valid [OF d1 r l1] obtain s2 where
    s2: "start_game_setup ?s1 = (None, s2)" and d2: "settings s2 = ?d"
    and f2: "running_active s2" "\<not> stopped_active s2" "\<not> stoptimer s2"
      "numbers_in_use s2 = Some (nat (MAX_NUMBERS - nc))" "length (numbers s2) = nat MAX_NUMBERS"
      "answers_correct s2 = answers_correct s" "answers_all s2 = answers_all s"
      "results_cur s2 = []"
      "results_prev s2 = (if results_cur s \<noteq> [] then results_cur s else results_prev s)"
      "pending s2 = pending s" "time_left s2 = time_left s" "dialogs s2 = dialogs s"
      "rng s2 = rng s" "rng_pos s2 = rng_pos s + nat nc" "uanswer s2 = []"
      "cfg_file s2 = cfg_file s" "numbercount_w s2 = numbercount_w s"
      "range_lower_w s2 = range_lower_w s" "range_upper_w s2 = range_upper_w s"
      "op_dropdown_w s2 = op_dropdown_w s" "time_entry_w s2 = time_entry_w s"
    by auto
  let ?s3 = "if t \<noteq> 0 then countdown t s2 else s2"
  have eq: "start_game s = (None, ?s3\<lparr>uanswer_focus := True\<rparr>)"
    unfolding start_game_def push_settings_valid [OF v]
    by (simp only: sum.case prod.case if_True andthen_def s2 fst_conv snd_conv option.case
        valid_settings_lookup [OF d2] Let_def)
  have cd: "t \<noteq> 0 \<Longrightarrow> countdown t s2 = s2\<lparr>time_left := t - 1, pending := pending s2 @ [t - 1]\<rparr>"
    using t f2(3) by (simp add: countdown_def)
  have "running (?s3\<lparr>uanswer_focus := True\<rparr>)"
    using vd f2 d2 by (cases "t = 0") (simp_all add: running_def cd valid_settings_lookup [OF refl])
  then show ?thesis
    unfolding eq using d2 f2 by (cases "t = 0") (simp_all add: cd)
qed

subsection \<open>The answers of a running session\<close>

lemma ex_init_fields: "fields_valid ex_init 2 0 20 120"
  by code_simp

lemma ex_init_numbers: "length (numbers ex_init) = nat MAX_NUMBERS"
  by code_simp

lemma ex_running_running: "running ex_running"
  using start_game_valid [OF ex_init_fields ex_init_numbers] by (auto simp: ex_running_def)

lemma running_set_new_calculation_operands:
  assumes "running s"
  shows "\<exists>lo hi. get_int (settings s) ''range_lower'' = Inr lo
      \<and> get_int (settings s) ''range_upper'' = Inr hi
      \<and> operands (snd (set_new_calculation s)) = draws (length (operands s)) lo hi (rng s) (rng_pos s)"
proof -
  from assms obtain nc lo hi op t where d:
    "settings s = raw_settings (PInt nc) (PInt lo) (PInt hi) op (PInt t)"
    and r: "rule_numbercount nc" "rule_order lo hi"
    and f: "numbers_in_use s = Some (nat (MAX_NUMBERS - nc))"
    and l: "length (numbers s) = nat MAX_NUMBERS"
    by (rule runningE)
  from r have le: "lo \<le> hi" and nc: "1 < nc" "nc \<le> 5"
    by (simp_all add: rule_order_def rule_numbercount_def MAX_NUMBERS_def)
  have first: "nat (MAX_NUMBERS - nc) \<le> length (numbers s)"
    using nc l by (simp add: MAX_NUMBERS_def)
  have look: "get_int (settings s) ''range_lower'' = Inr lo" "get_int (settings s) ''range_upper'' = Inr hi"
    by (simp_all add: d raw_settings_def get_int_def getitem_def ebind_def)
  have "operands (snd (set_new_calculation s)) = draws (length (operands s)) lo hi (rng s) (rng_pos s)"
    using first by (simp add: set_new_calculation_ok [OF d le f] clear_field_def operands_def f)
  with look show ?thesis by blast
qed

lemma running_advance_turn_advanced:
  assumes "running s"
  shows "fst (advance_turn correct s) = None \<and> advanced correct s (snd (advance_turn correct s))"
proof -
  define c where "c = (if correct then answers_correct s + 1 else answers_correct s)"
  define s3 where "s3 = s\<lparr>answers_all := answers_all s + 1, answers_correct := c,
    results_cur := score_text c (answers_all s + 1)\<rparr>"
  have eq: "advance_turn correct s = set_new_calculation s3"
    by (cases correct) (simp_all add: advance_turn_eq s3_def c_def)
  have r3: "running s3"
    using assms by (simp add: s3_def)
  have same: "settings s3 = settings s" "operands s3 = operands s" "rng s3 = rng s"
    "rng_pos s3 = rng_pos s"
    by (simp_all add: s3_def operands_def split: option.split)
  from running_set_new_calculation [OF r3] obtain s' where
    s': "set_new_calculation s3 = (None, s')" "running s'"
      "answers_correct s' = answers_correct s3" "answers_all s' = answers_all s3"
      "results_cur s' = results_cur s3" "dialogs s' = dialogs s3" "uanswer s' = []"
      "rng_pos s' = rng_pos s3 + length (operands s3)"
    by blast
  from running_set_new_calculation_operands [OF r3] s'(1) obtain lo hi where
    "get_int (settings s) ''range_lower'' = Inr lo" "get_int (settings s) ''range_upper'' = Inr hi"
    "operands s' = draws (length (operands s)) lo hi (rng s) (rng_pos s)"
    by (auto simp: same)
  then have "\<exists>lo hi. get_int (settings s) ''range_lower'' = Inr lo
            \<and> get_int (settings s) ''range_upper'' = Inr hi
            \<and> operands s' = draws (length (operands s)) lo hi (rng s) (rng_pos s)"
    by blast
  then show ?thesis
    unfolding eq s'(1) advanced_def using s'(2-) same
    by (simp add: s3_def c_def)
qed

subsection \<open>The countdown\<close>

lemma fire_tick_positive:
  assumes "\<not> stoptimer s" "pending s = c # cs" "0 < c"
  shows "fire_tick s = s\<lparr>time_left := c - 1, pending := cs @ [c - 1]\<rparr>"
  using assms by (simp add: fire_tick_def countdown_def)

lemma fire_tick_zero:
  assumes "\<not> stoptimer s" "pending s = c # cs" "c \<le> 0"
  shows "fire_tick s = stop_game (s\<lparr>pending := cs\<rparr>)"
  using assms by (simp add: fire_tick_def countdown_def)

lemma fire_tick_stopped:
  assumes "stoptimer s" "pending s = c # cs"
  shows "fire_tick s = s\<lparr>pending := cs\<rparr>"
  using assms by (simp add: fire_tick_def countdown_def)

lemma running_timer [simp]:
  "running (s\<lparr>time_left := x\<rparr>) = running s"
  "running (s\<lparr>pending := p\<rparr>) = running s"
  by (simp_all add: running_def)

lemma fire_ticks_counting:
  assumes "\<not> stoptimer s" "pending s = [c]" "int k \<le> c"
  shows "fire_ticks k s = (if k = 0 then s else s\<lparr>time_left := c - int k, pending := [c - int k]\<rparr>)"
  using assms
proof (induction k arbitrary: s c)
  case 0
  then show ?case by simp
next
  case (Suc k)
  from Suc.prems have c: "0 < c" by simp
  let ?s1 = "s\<lparr>time_left := c - 1, pending := [c - 1]\<rparr>"
  have ft: "fire_tick s = ?s1"
    using fire_tick_positive [OF Suc.prems(1,2) c] by simp
  have "fire_ticks k ?s1 = (if k = 0 then ?s1 else ?s1\<lparr>time_left := c - 1 - int k, pending := [c - 1 - int k]\<rparr>)"
    using Suc.prems by (intro Suc.IH) simp_all
  then show ?case
    by (simp add: ft algebra_simps)
qed

lemma stop_game_fields:
  "\<not> running_active (stop_game s)" "stopped_active (stop_game s)" "stoptimer (stop_game s)"
  "time_left (stop_game s) = 0" "answers_correct (stop_game s) = 0" "answers_all (stop_game s) = 0"
  "pending (stop_game s) = pending s" "results_cur (stop_game s) = results_cur s"
  "results_prev (stop_game s) = results_prev s" "dialogs (stop_game s) = dialogs s"
  "settings (stop_game s) = settings s" "\<not> uanswer_focus (stop_game s)"
  by (simp_all add: stop_game_def clear_field_def Let_def)

lemma fire_ticks_add: "fire_ticks (m + n) s = fire_ticks n (fire_ticks m s)"
  by (induction m arbitrary: s) simp_all

lemma fire_ticks_timeout:
  assumes "\<not> stoptimer s" "pending s = [c]" "0 \<le> c"
  shows "fire_ticks (Suc (nat c)) s =
    stop_game ((if c = 0 then s else s\<lparr>time_left := 0\<rparr>)\<lparr>pending := []\<rparr>)"
proof -
  let ?s' = "fire_ticks (nat c) s"
  have s': "?s' = (if nat c = 0 then s else s\<lparr>time_left := 0, pending := [0]\<rparr>)"
    using fire_ticks_counting [OF assms(1,2), of "nat c"] assms(3) by simp
  then have "\<not> stoptimer ?s'" "pending ?s' = [0]"
    using assms by (simp_all split: if_splits)
  then have "fire_tick ?s' = stop_game (?s'\<lparr>pending := []\<rparr>)"
    using fire_tick_zero [of ?s' 0 "[]"] by simp
  moreover have "fire_ticks (Suc (nat c)) s = fire_tick ?s'"
    using fire_ticks_add [of "nat c" 1 s] by simp
  ultimately show ?thesis
    using assms(3) by (simp add: s')
qed

text \<open>
  The countdown of a session that starts while no call of \<open>countdown\<close> is scheduled.
  Let the entries hold valid settings with a time limit \<open>t > 0\<close>. Then \<open>start_game\<close>
  gives a running session with the time limit \<open>t\<close> and one scheduled call; every tick
  runs the scheduled call, whose argument is the time that remains and goes down by one
  from tick to tick: after \<open>k < t\<close> ticks the session still runs, the next call carries
  \<open>t - 1 - k\<close>, which is also the time on display. The tick whose call carries 0, the
  \<open>t\<close>-th, stops the game: the widgets of the stopped game are enabled, the timer flag
  is up, nothing is scheduled and the time on display is 0. For \<open>t = 1\<close> this is the
  first tick.
\<close>

theorem countdown_stops_at_zero:
  "fields_valid s nc lo hi t \<and> 0 < t \<and> pending s = [] \<and> length (numbers s) = nat MAX_NUMBERS
   \<longrightarrow>
   fst (start_game s) = None
   \<and> running (snd (start_game s))
   \<and> get_int (settings (snd (start_game s))) ''time_limit'' = Inr t
   \<and> pending (snd (start_game s)) = [t - 1]
   \<and> (\<forall>k. int k < t \<longrightarrow>
         running (fire_ticks k (snd (start_game s)))
         \<and> pending (fire_ticks k (snd (start_game s))) = [t - 1 - int k]
         \<and> time_left (fire_ticks k (snd (start_game s))) = t - 1 - int k)
   \<and> \<not> running_active (fire_ticks (nat t) (snd (start_game s)))
   \<and> stopped_active (fire_ticks (nat t) (snd (start_game s)))
   \<and> stoptimer (fire_ticks (nat t) (snd (start_game s)))
   \<and> pending (fire_ticks (nat t) (snd (start_game s))) = []
   \<and> time_left (fire_ticks (nat t) (snd (start_game s))) = 0
   \<and> (t = 1 \<longrightarrow> \<not> running_active (fire_tick (snd (start_game s)))
         \<and> stopped_active (fire_tick (snd (start_game s)))
         \<and> time_left (fire_tick (snd (start_game s))) = 0)"
proof (intro impI)
  assume a: "fields_valid s nc lo hi t \<and> 0 < t \<and> pending s = []
    \<and> length (numbers s) = nat MAX_NUMBERS"
  then have v: "fields_valid s nc lo hi t" and t: "0 < t" and p: "pending s = []"
    and l: "length (numbers s) = nat MAX_NUMBERS"
    by simp_all
  from start_game_valid [OF v l] obtain s1 where s1: "start_game s = (None, s1)"
    and r1: "running s1"
    and d1: "settings s1 = raw_settings (PInt nc) (PInt lo) (PInt hi) (PStr (op_dropdown_w s)) (PInt t)"
    and p1: "pending s1 = (if t \<noteq> 0 then pending s @ [t - 1] else pending s)"
    and t1: "time_left s1 = (if t \<noteq> 0 then t - 1 else time_left s)"
    by blast
  from r1 have ns: "\<not> stoptimer s1"
    by (simp add: running_def)
  from p1 p t have p1': "pending s1 = [t - 1]"
    by simp
  have count: "running (fire_ticks k s1) \<and> pending (fire_ticks k s1) = [t - 1 - int k]
      \<and> time_left (fire_ticks k s1) = t - 1 - int k" if "int k < t" for k
    using fire_ticks_counting [OF ns p1', of k] that r1 p1' t1 t by (cases "k = 0") simp_all
  have nt: "Suc (nat (t - 1)) = nat t"
    using t by simp
  have stop: "fire_ticks (nat t) s1 =
      stop_game ((if t - 1 = 0 then s1 else s1\<lparr>time_left := 0\<rparr>)\<lparr>pending := []\<rparr>)"
    using fire_ticks_timeout [OF ns p1', unfolded nt] t by simp
  have one: "t = 1 \<Longrightarrow> fire_tick s1 = fire_ticks (nat t) s1"
    by simp
  have fin: "\<not> running_active (fire_ticks (nat t) s1)" "stopped_active (fire_ticks (nat t) s1)"
    "stoptimer (fire_ticks (nat t) s1)" "pending (fire_ticks (nat t) s1) = []"
    "time_left (fire_ticks (nat t) s1) = 0"
    unfolding stop by (simp_all add: stop_game_fields)
  have tl: "get_int (settings s1) ''time_limit'' = Inr t"
    by (rule valid_settings_lookup [OF d1])
  have "\<forall>k. int k < t \<longrightarrow>
         running (fire_ticks k s1)
         \<and> pending (fire_ticks k s1) = [t - 1 - int k]
         \<and> time_left (fire_ticks k s1) = t - 1 - int k"
    using count by blast
  moreover have "t = 1 \<longrightarrow> \<not> running_active (fire_tick s1)
         \<and> stopped_active (fire_tick s1) \<and> time_left (fire_tick s1) = 0"
  proof
    assume "t = 1"
    then have "fire_tick s1 = fire_ticks (nat t) s1"
      by (rule one)
    then show "\<not> running_active (fire_tick s1)
        \<and> stopped_active (fire_tick s1) \<and> time_left (fire_tick s1) = 0"
      using fin by (simp only: simp_thms)
  qed
  ultimately show "fst (start_game s) = None
   \<and> running (snd (start_game s))
   \<and> get_int (settings (snd (start_game s))) ''time_limit'' = Inr t
   \<and> pending (snd (start_game s)) = [t - 1]
   \<and> (\<forall>k. int k < t \<longrightarrow>
         running (fire_ticks k (snd (start_game s)))
         \<and> pending (fire_ticks k (snd (start_game s))) = [t - 1 - int k]
         \<and> time_left (fire_ticks k (snd (start_game s))) = t - 1 - int k)
   \<and> \<not> running_active (fire_ticks (nat t) (snd (start_game s)))
   \<and> stopped_active (fire_ticks (nat t) (snd (start_game s)))
   \<and> stoptimer (fire_ticks (nat t) (snd (start_game s)))
   \<and> pending (fire_ticks (nat t) (snd (start_game s))) = []
   \<and> time_left (fire_ticks (nat t) (snd (start_game s))) = 0
   \<and> (t = 1 \<longrightarrow> \<not> running_active (fire_tick (snd (start_game s)))
         \<and> stopped_active (fire_tick (snd (start_game s)))
         \<and> time_left (fire_tick (snd (start_game s))) = 0)"
    unfolding s1 snd_conv fst_conv
    using r1 p1' tl fin by (intro conjI) (assumption | rule refl)+
qed

lemma ex_init1_fields: "fields_valid ex_init1 2 0 20 1"
  by code_simp

lemma ex_init1_start: "pending ex_init1 = []" "length (numbers ex_init1) = nat MAX_NUMBERS"
  by code_simp+

lemma ex_init_pending: "pending ex_init = []"
  by code_simp

text \<open>
  The concrete run has the time limit 120: it still runs after 119 ticks and is stopped
  after 120. With the time limit 1 it is stopped after one tick, with 0 on display.
\<close>

theorem countdown_stops_at_zero_witness:
  "running (fire_ticks 119 ex_running)
   \<and> pending (fire_ticks 119 ex_running) = [0]
   \<and> \<not> running_active (fire_ticks 120 ex_running)
   \<and> time_left (fire_ticks 120 ex_running) = 0
   \<and> running (snd (start_game ex_init1))
   \<and> pending (snd (start_game ex_init1)) = [0]
   \<and> \<not> running_active (fire_tick (snd (start_game ex_init1)))
   \<and> stopped_active (fire_tick (snd (start_game ex_init1)))
   \<and> time_left (fire_tick (snd (start_game ex_init1))) = 0"
proof -
  have a: "fields_valid ex_init 2 0 20 120 \<and> (0::int) < 120 \<and> pending ex_init = []
      \<and> length (numbers ex_init) = nat MAX_NUMBERS"
    by (simp add: ex_init_fields ex_init_pending ex_init_numbers)
  have b: "fields_valid ex_init1 2 0 20 1 \<and> (0::int) < 1 \<and> pending ex_init1 = []
      \<and> length (numbers ex_init1) = nat MAX_NUMBERS"
    by (simp add: ex_init1_fields ex_init1_start)
  from countdown_stops_at_zero [of ex_init 2 0 20 120] a
  have c: "\<forall>k. int k < 120 \<longrightarrow>
         running (fire_ticks k ex_running)
         \<and> pending (fire_ticks k ex_running) = [120 - 1 - int k]
         \<and> time_left (fire_ticks k ex_running) = 120 - 1 - int k"
    and d: "\<not> running_active (fire_ticks (nat 120) ex_running)"
      "time_left (fire_ticks (nat 120) ex_running) = 0"
    unfolding ex_running_def by blast+
  from c [rule_format, of 119] have "running (fire_ticks 119 ex_running)"
    "pending (fire_ticks 119 ex_running) = [0]"
    by simp_all
  moreover from d have "\<not> running_active (fire_ticks 120 ex_running)"
    "time_left (fire_ticks 120 ex_running) = 0"
    by simp_all
  moreover from countdown_stops_at_zero [of ex_init1 2 0 20 1] b
  have "running (snd (start_game ex_init1))" "pending (snd (start_game ex_init1)) = [0]"
    "\<not> running_active (fire_tick (snd (start_game ex_init1)))"
    "stopped_active (fire_tick (snd (start_game ex_init1)))"
    "time_left (fire_tick (snd (start_game ex_init1))) = 0"
    by simp_all
  ultimately show ?thesis
    by simp
qed

subsection \<open>What the methods leave unchanged, and the invariants\<close>

lemma set_new_calculation_frame:
  "running_active (snd (set_new_calculation s)) = running_active s"
  "stopped_active (snd (set_new_calculation s)) = stopped_active s"
  "stoptimer (snd (set_new_calculation s)) = stoptimer s"
  "settings (snd (set_new_calculation s)) = settings s"
  "pending (snd (set_new_calculation s)) = pending s"
  "dialogs (snd (set_new_calculation s)) = dialogs s"
  "time_left (snd (set_new_calculation s)) = time_left s"
  by (simp_all add: set_new_calculation_def clear_field_def split: sum.splits option.splits)

lemma left_eq_config_frame:
  "running_active (snd (left_eq_config s)) = running_active s"
  "stopped_active (snd (left_eq_config s)) = stopped_active s"
  "answers_correct (snd (left_eq_config s)) = answers_correct s"
  "answers_all (snd (left_eq_config s)) = answers_all s"
  "results_cur (snd (left_eq_config s)) = results_cur s"
  "results_prev (snd (left_eq_config s)) = results_prev s"
  "settings (snd (left_eq_config s)) = settings s"
  by (simp_all add: left_eq_config_def Let_def split: sum.splits pyval.splits)

lemma start_game_setup_counters:
  "answers_correct (snd (start_game_setup s)) = answers_correct s"
  "answers_all (snd (start_game_setup s)) = answers_all s"
proof -
  obtain e s1 where l: "left_eq_config s = (e, s1)"
    by (cases "left_eq_config s")
  from left_eq_config_frame(3,4) [of s] l have c: "answers_correct s1 = answers_correct s"
    "answers_all s1 = answers_all s"
    by simp_all
  show "answers_correct (snd (start_game_setup s)) = answers_correct s"
    using c by (cases e)
      (simp_all add: start_game_setup_def andthen_def l Let_def set_new_calculation_counters
        split: sum.splits)
  show "answers_all (snd (start_game_setup s)) = answers_all s"
    using c by (cases e)
      (simp_all add: start_game_setup_def andthen_def l Let_def set_new_calculation_counters
        split: sum.splits)
qed

lemma start_game_setup_modes:
  assumes "running_active s \<noteq> stopped_active s"
  shows "running_active (snd (start_game_setup s)) \<noteq> stopped_active (snd (start_game_setup s))"
proof -
  obtain e s1 where l: "left_eq_config s = (e, s1)"
    by (cases "left_eq_config s")
  from left_eq_config_frame(1,2) [of s] l assms have c: "running_active s1 \<noteq> stopped_active s1"
    by simp
  then show ?thesis
    by (cases e)
      (simp_all add: start_game_setup_def andthen_def l Let_def set_new_calculation_frame
        split: sum.splits)
qed

lemma push_settings_frame:
  assumes "push_settings b s = Inr (ok, s1)"
  shows "answers_correct s1 = answers_correct s" "answers_all s1 = answers_all s"
    "running_active s1 = running_active s" "stopped_active s1 = stopped_active s"
    "results_cur s1 = results_cur s" "results_prev s1 = results_prev s"
    "stoptimer s1 = stoptimer s" "pending s1 = pending s"
  using assms
  by (auto simp: push_settings_def ebind_def split: sum.splits prod.splits if_splits)

lemma countdown_cases:
  "countdown c s = s \<or> countdown c s = s\<lparr>time_left := c - 1, pending := pending s @ [c - 1]\<rparr>
   \<or> countdown c s = stop_game s"
  by (simp add: countdown_def)

lemma start_game_counters:
  "answers_correct (snd (start_game s)) = answers_correct s \<and> answers_all (snd (start_game s)) = answers_all s
   \<or> answers_correct (snd (start_game s)) = 0 \<and> answers_all (snd (start_game s)) = 0"
proof (cases "push_settings True s")
  case (Inl e)
  then show ?thesis by (simp add: start_game_def)
next
  case (Inr r)
  obtain ok s1 where r: "r = (ok, s1)" by (cases r)
  note f = push_settings_frame [OF Inr [unfolded r]]
  show ?thesis
  proof (cases ok)
    case False
    then show ?thesis using f by (simp add: start_game_def Inr r)
  next
    case True
    obtain e s2 where s2: "start_game_setup s1 = (e, s2)"
      by (cases "start_game_setup s1")
    from start_game_setup_counters [of s1] s2 f have c2: "answers_correct s2 = answers_correct s"
      "answers_all s2 = answers_all s"
      by simp_all
    show ?thesis
    proof (cases e)
      case (Some x)
      then show ?thesis using c2 by (simp add: start_game_def Inr r True andthen_def s2)
    next
      case None
      show ?thesis
      proof (cases "get_int (settings s2) ''time_limit''")
        case (Inl x)
        then show ?thesis using c2 by (simp add: start_game_def Inr r True andthen_def s2 None)
      next
        case (Inr t)
        have eq: "snd (start_game s) = (if t \<noteq> 0 then countdown t s2 else s2)\<lparr>uanswer_focus := True\<rparr>"
          by (simp add: start_game_def \<open>push_settings True s = Inr r\<close> r True andthen_def s2 None Inr Let_def)
        show ?thesis
          unfolding eq using countdown_cases [of t s2] c2
          by (auto simp: stop_game_fields)
      qed
    qed
  qed
qed

lemma start_game_modes:
  assumes "running_active s \<noteq> stopped_active s"
  shows "running_active (snd (start_game s)) \<noteq> stopped_active (snd (start_game s))"
proof (cases "push_settings True s")
  case (Inl e)
  then show ?thesis using assms by (simp add: start_game_def)
next
  case (Inr r)
  obtain ok s1 where r: "r = (ok, s1)" by (cases r)
  note f = push_settings_frame [OF Inr [unfolded r]]
  show ?thesis
  proof (cases ok)
    case False
    then show ?thesis using f assms by (simp add: start_game_def Inr r)
  next
    case True
    obtain e s2 where s2: "start_game_setup s1 = (e, s2)"
      by (cases "start_game_setup s1")
    from start_game_setup_modes [of s1] s2 f assms have c2: "running_active s2 \<noteq> stopped_active s2"
      by simp
    show ?thesis
    proof (cases e)
      case (Some x)
      then show ?thesis using c2 by (simp add: start_game_def Inr r True andthen_def s2)
    next
      case None
      show ?thesis
      proof (cases "get_int (settings s2) ''time_limit''")
        case (Inl x)
        then show ?thesis using c2 by (simp add: start_game_def Inr r True andthen_def s2 None)
      next
        case (Inr t)
        have eq: "snd (start_game s) = (if t \<noteq> 0 then countdown t s2 else s2)\<lparr>uanswer_focus := True\<rparr>"
          by (simp add: start_game_def \<open>push_settings True s = Inr r\<close> r True andthen_def s2 None Inr Let_def)
        show ?thesis
          unfolding eq using countdown_cases [of t s2] c2
          by (auto simp: stop_game_fields)
      qed
    qed
  qed
qed

lemma advance_turn_counters:
  "answers_all (snd (advance_turn b s)) = answers_all s + 1"
  "answers_correct (snd (advance_turn b s)) = (if b then answers_correct s + 1 else answers_correct s)"
  by (simp_all add: advance_turn_def Let_def set_new_calculation_counters)

lemma advance_turn_frame:
  "running_active (snd (advance_turn b s)) = running_active s"
  "stopped_active (snd (advance_turn b s)) = stopped_active s"
  "results_prev (snd (advance_turn b s)) = results_prev s"
  "results_cur (snd (advance_turn b s)) \<noteq> []"
  by (simp_all add: advance_turn_def Let_def set_new_calculation_counters set_new_calculation_frame
      score_text_def)

lemma counters_ok_advance_turn:
  "counters_ok s \<Longrightarrow> counters_ok (snd (advance_turn b s))"
  by (simp add: counters_ok_def advance_turn_counters)

lemma bad_input_frame:
  "answers_correct (bad_input s) = answers_correct s" "answers_all (bad_input s) = answers_all s"
  "running_active (bad_input s) = running_active s" "stopped_active (bad_input s) = stopped_active s"
  "results_prev (bad_input s) = results_prev s" "results_cur (bad_input s) = results_cur s"
  by (simp_all add: bad_input_def clear_field_def Let_def)

lemma answer_process_cases:
  "snd (answer_process txt s) = s
   \<or> (\<exists>b ds. snd (answer_process txt s) = snd (advance_turn b (s\<lparr>dialogs := ds\<rparr>)))
   \<or> (\<exists>b ds. snd (answer_process txt s) = bad_input (snd (advance_turn b (s\<lparr>dialogs := ds\<rparr>))))
   \<or> (\<exists>ds. snd (answer_process txt s) = bad_input (s\<lparr>dialogs := ds\<rparr>))"
proof (cases "numbers_in_use s")
  case None
  then show ?thesis by (simp add: answer_process_def)
next
  case (Some first)
  show ?thesis
  proof (cases "getitem (settings s) ''operator''")
    case (Inl e)
    then show ?thesis by (simp add: answer_process_def Some)
  next
    case (Inr op)
    show ?thesis
    proof (cases "get_answer (drop first (numbers s)) op")
      case (Inl e)
      then show ?thesis by (simp add: answer_process_def Some Inr)
    next
      case r: (Inr r)
      obtain ds answer where [simp]: "r = (ds, answer)" by (cases r)
      let ?s1 = "s\<lparr>dialogs := dialogs s @ ds\<rparr>"
      show ?thesis
      proof (cases "int_of_str txt")
        case None
        then have "snd (answer_process txt s) =
            (if txt = [] then snd (advance_turn False ?s1) else bad_input ?s1)"
          by (simp add: answer_process_def Some Inr r)
        then show ?thesis by (cases "txt = []") auto
      next
        case (Some n)
        then have "snd (answer_process txt s) =
            (if fst (advance_turn (n = answer) ?s1) = Some ValueError
             then (if txt = [] then snd (advance_turn False (snd (advance_turn (n = answer) ?s1)))
                   else bad_input (snd (advance_turn (n = answer) ?s1)))
             else snd (advance_turn (n = answer) ?s1))"
          by (simp add: answer_process_def \<open>numbers_in_use s = Some first\<close> Inr r Let_def)
        moreover have "txt \<noteq> []"
          using Some by (auto simp: int_of_str_def int_strip_def)
        ultimately show ?thesis
          by (cases "fst (advance_turn (n = answer) ?s1) = Some ValueError") auto
      qed
    qed
  qed
qed

lemma counters_ok_dialogs [simp]: "counters_ok (s\<lparr>dialogs := ds\<rparr>) = counters_ok s"
  by (simp add: counters_ok_def)

lemma counters_ok_answer_process:
  assumes "counters_ok s"
  shows "counters_ok (snd (answer_process txt s))"
proof -
  have a: "counters_ok (snd (advance_turn b (s\<lparr>dialogs := ds\<rparr>)))" for b ds
    using assms by (intro counters_ok_advance_turn) simp
  have b: "counters_ok (bad_input x) = counters_ok x" for x
    by (simp add: counters_ok_def bad_input_frame)
  from answer_process_cases [of "txt" s] show ?thesis
    using assms a b by (elim disjE exE) simp_all
qed

lemma answer_process_modes:
  "running_active (snd (answer_process txt s)) = running_active s"
  "stopped_active (snd (answer_process txt s)) = stopped_active s"
  "results_prev (snd (answer_process txt s)) = results_prev s"
  using answer_process_cases [of "txt" s]
  by (auto simp: advance_turn_frame bad_input_frame)

lemma counters_ok_stop_game: "counters_ok (stop_game s)"
  by (simp add: counters_ok_def stop_game_fields)

lemma counters_ok_countdown: "counters_ok s \<Longrightarrow> counters_ok (countdown c s)"
  using countdown_cases [of c s] by (auto simp: counters_ok_stop_game) (simp add: counters_ok_def)

lemma counters_ok_fire_tick: "counters_ok s \<Longrightarrow> counters_ok (fire_tick s)"
proof (cases "pending s")
  case Nil
  assume "counters_ok s"
  with Nil show ?thesis by (simp add: fire_tick_def)
next
  case (Cons c cs)
  assume "counters_ok s"
  then have "counters_ok (s\<lparr>pending := cs\<rparr>)"
    by (simp add: counters_ok_def)
  then show ?thesis
    by (simp add: fire_tick_def Cons counters_ok_countdown)
qed

lemma counters_ok_start_game: "counters_ok s \<Longrightarrow> counters_ok (snd (start_game s))"
  using start_game_counters [of s] by (auto simp: counters_ok_def)

lemma init_app_fields:
  "answers_correct (snd (init_app file src)) = 0" "answers_all (snd (init_app file src)) = 0"
  "\<not> running_active (snd (init_app file src))" "stopped_active (snd (init_app file src))"
  by (simp_all add: init_app_def left_eq_config_frame split: prod.splits)

lemma modes_countdown:
  "running_active s \<noteq> stopped_active s \<Longrightarrow>
   running_active (countdown c s) \<noteq> stopped_active (countdown c s)"
  using countdown_cases [of c s] by (auto simp: stop_game_fields)

lemma modes_fire_tick:
  "running_active s \<noteq> stopped_active s \<Longrightarrow>
   running_active (fire_tick s) \<noteq> stopped_active (fire_tick s)"
  by (cases "pending s") (simp_all add: fire_tick_def modes_countdown)

lemma reachable_invariants:
  assumes "reachable s"
  shows "counters_ok s \<and> running_active s \<noteq> stopped_active s"
  using assms
proof (induction rule: reachable.induct)
  case (init cfg src)
  then show ?case by (simp add: counters_ok_def init_app_fields)
next
  case (edit s a b c d e)
  then show ?case by (simp add: counters_ok_def)
next
  case (typing s u)
  then show ?case by (simp add: counters_ok_def)
next
  case (start s)
  then show ?case
    using start_game_modes [of s] by (auto simp: start_button_def counters_ok_start_game)
next
  case (stop s)
  then show ?case
    by (simp add: stop_button_def counters_ok_stop_game stop_game_fields)
next
  case (submit s)
  then show ?case
    by (simp add: submit_key_def counters_ok_answer_process answer_process_modes)
next
  case (tick s)
  then show ?case
    using modes_fire_tick [of s] by (auto simp: counters_ok_fire_tick)
next
  case (refocus s f)
  then show ?case by (simp add: counters_ok_def)
next
  case (clear_pressed s)
  then show ?case by (simp add: counters_ok_def clear_key_def clear_field_def)
next
  case (help_pressed s)
  then show ?case by (simp add: counters_ok_def help_button_def)
qed

subsection \<open>Sessions from start to stop\<close>

lemma rand_loop_length:
  "rand_loop n low high src pos = Inr rs \<Longrightarrow> length rs = n"
  by (induction n arbitrary: pos rs) (auto simp: ebind_def split: sum.splits)

lemma set_new_calculation_length:
  "length (numbers (snd (set_new_calculation s))) = length (numbers s)"
  by (auto simp: set_new_calculation_def clear_field_def dest: rand_loop_length
      split: sum.splits option.splits)

lemma left_eq_config_numbers: "numbers (snd (left_eq_config s)) = numbers s"
  by (simp add: left_eq_config_def Let_def split: sum.splits pyval.splits)

lemma start_game_setup_length:
  "length (numbers (snd (start_game_setup s))) = length (numbers s)"
proof -
  obtain e s1 where l: "left_eq_config s = (e, s1)"
    by (cases "left_eq_config s")
  from left_eq_config_numbers [of s] l have "numbers s1 = numbers s"
    by simp
  then show ?thesis
    by (cases e)
      (simp_all add: start_game_setup_def andthen_def l Let_def set_new_calculation_length
        split: sum.splits)
qed

lemma push_settings_numbers:
  assumes "push_settings b s = Inr (ok, s1)"
  shows "numbers s1 = numbers s"
  using assms
  by (auto simp: push_settings_def ebind_def split: sum.splits prod.splits if_splits)

lemma countdown_numbers: "numbers (countdown c s) = numbers s"
  by (simp add: countdown_def stop_game_def clear_field_def Let_def)

lemma start_game_length: "length (numbers (snd (start_game s))) = length (numbers s)"
proof (cases "push_settings True s")
  case (Inl e)
  then show ?thesis by (simp add: start_game_def)
next
  case (Inr r)
  obtain ok s1 where r: "r = (ok, s1)" by (cases r)
  note f = push_settings_numbers [OF Inr [unfolded r]]
  show ?thesis
  proof (cases ok)
    case False
    then show ?thesis using f by (simp add: start_game_def Inr r)
  next
    case True
    obtain e s2 where s2: "start_game_setup s1 = (e, s2)"
      by (cases "start_game_setup s1")
    from start_game_setup_length [of s1] s2 f have c2: "length (numbers s2) = length (numbers s)"
      by simp
    show ?thesis
    proof (cases e)
      case (Some x)
      then show ?thesis using c2 by (simp add: start_game_def Inr r True andthen_def s2)
    next
      case None
      then show ?thesis
        using c2
        by (simp add: start_game_def Inr r True andthen_def s2 Let_def countdown_numbers
            split: sum.splits)
    qed
  qed
qed

lemma answer_process_length:
  "length (numbers (snd (answer_process u s))) = length (numbers s)"
proof -
  have a: "length (numbers (snd (advance_turn b x))) = length (numbers x)" for b x
    by (simp add: advance_turn_def Let_def set_new_calculation_length)
  have b: "numbers (bad_input x) = numbers x" for x
    by (simp add: bad_input_def clear_field_def Let_def)
  from answer_process_cases [of u s] show ?thesis
    by (elim disjE exE) (simp_all add: a b)
qed

lemma fire_tick_numbers: "numbers (fire_tick s) = numbers s"
  by (cases "pending s") (simp_all add: fire_tick_def countdown_numbers)

lemma reachable_numbers:
  assumes "reachable s"
  shows "length (numbers s) = nat MAX_NUMBERS"
  using assms
proof (induction rule: reachable.induct)
  case (init cfg src)
  then show ?case
    by (simp add: init_app_def left_eq_config_numbers split: prod.splits)
next
  case (start s)
  then show ?case by (simp add: start_button_def start_game_length)
next
  case (stop s)
  then show ?case by (simp add: stop_button_def stop_game_def clear_field_def Let_def)
next
  case (submit s)
  then show ?case by (simp add: submit_key_def answer_process_length)
next
  case (tick s)
  then show ?case by (simp add: fire_tick_numbers)
next
  case (clear_pressed s)
  then show ?case by (simp add: clear_key_def clear_field_def)
next
  case (help_pressed s)
  then show ?case by (simp add: help_button_def)
qed simp_all

lemma ex_init_ok: "fst (init_app None ex_src) = None"
  by code_simp

lemma ex_init_stopped: "stopped_active ex_init" "\<not> running_active ex_init" "\<not> stoptimer ex_init"
  by code_simp+

lemma ex_init_reachable: "reachable ex_init"
  unfolding ex_init_def by (rule reachable.init) (rule ex_init_ok)

lemma ex_running_reachable: "reachable ex_running"
  using reachable.start [OF ex_init_reachable] ex_init_stopped(1)
  by (simp add: start_button_def ex_running_def)

text \<open>
  Claim C10. In every reachable state \<open>0 \<le> answers_correct \<le> answers_all\<close>. Every
  operation keeps this, from any state where it holds and whatever exception ends the
  operation: \<open>start_game\<close>, \<open>answer_process\<close>, \<open>advance_turn\<close>, \<open>stop_game\<close>,
  \<open>countdown\<close> and a tick. \<open>advance_turn\<close> adds one to \<open>answers_all\<close>, and one to
  \<open>answers_correct\<close> only together with it; \<open>stop_game\<close> sets both to 0, as \<open>__init__\<close>
  does.
\<close>

theorem counters_invariant:
  "(reachable s \<longrightarrow> 0 \<le> answers_correct s \<and> answers_correct s \<le> answers_all s)
   \<and> (counters_ok s \<longrightarrow>
        counters_ok (snd (start_game s)) \<and> counters_ok (snd (answer_process u s))
        \<and> counters_ok (snd (advance_turn b s)) \<and> counters_ok (stop_game s)
        \<and> counters_ok (countdown c s) \<and> counters_ok (fire_tick s))
   \<and> answers_all (snd (advance_turn b s)) = answers_all s + 1
   \<and> answers_correct (snd (advance_turn b s))
        = (if b then answers_correct s + 1 else answers_correct s)
   \<and> answers_correct (stop_game s) = 0 \<and> answers_all (stop_game s) = 0
   \<and> answers_correct (snd (init_app cfg src)) = 0 \<and> answers_all (snd (init_app cfg src)) = 0"
proof -
  have "reachable s \<longrightarrow> 0 \<le> answers_correct s \<and> answers_correct s \<le> answers_all s"
    using reachable_invariants [of s] by (simp add: counters_ok_def)
  moreover have "counters_ok s \<longrightarrow>
        counters_ok (snd (start_game s)) \<and> counters_ok (snd (answer_process u s))
        \<and> counters_ok (snd (advance_turn b s)) \<and> counters_ok (stop_game s)
        \<and> counters_ok (countdown c s) \<and> counters_ok (fire_tick s)"
    by (simp add: counters_ok_start_game counters_ok_answer_process counters_ok_advance_turn
        counters_ok_stop_game counters_ok_countdown counters_ok_fire_tick)
  ultimately show ?thesis
    by (simp add: advance_turn_counters stop_game_fields init_app_fields)
qed

lemma ex_answered_counters: "answers_correct ex_answered = 1" "answers_all ex_answered = 1"
  "results_cur ex_answered = ''1 / 1''"
  by code_simp+

lemma ex_answered_reachable: "reachable ex_answered"
proof -
  have "running_active ex_running"
    using ex_running_running by (simp add: running_def)
  with ex_running_reachable have "reachable (ex_running\<lparr>uanswer := '' 13 ''\<rparr>)"
    by (rule reachable.typing)
  then show ?thesis
    unfolding ex_answered_def by (rule reachable.submit)
qed

text \<open>The concrete run after one correct answer: both counters are 1.\<close>

theorem counters_invariant_witness:
  "reachable ex_answered \<and> answers_correct ex_answered = 1 \<and> answers_all ex_answered = 1
   \<and> counters_ok ex_answered \<and> counters_ok (snd (answer_process ''7'' ex_answered))
   \<and> counters_ok (fire_tick ex_answered) \<and> counters_ok (snd (start_game ex_answered))"
  using counters_invariant [of ex_answered "''7''"] ex_answered_reachable
  by (simp add: ex_answered_counters counters_ok_def)



lemma ex_restart: "pending ex_running = [119]" "pending (snd (start_game ex_running)) = [119, 119]"
  "operands ex_running = [3, 10]" "operands (snd (start_game ex_running)) = [17, 3]"
  by code_simp+


text \<open>
  Claim C9. \<open>stop_game\<close> sets both counters to 0 and leaves the two score displays as
  they are. A \<open>start_game\<close> with valid entries empties the current display, and copies
  it to the previous one first exactly when it is not empty; a \<open>start_game\<close> whose
  entries are refused leaves both. Neither \<open>answer_process\<close> nor a tick changes the
  previous display, and the current display is not empty after a counted attempt: it
  is empty at the start of a session, so it is not empty at the next start exactly
  when the session had an attempt.
\<close>

theorem stop_keeps_score_display:
  "results_cur (stop_game s) = results_cur s \<and> results_prev (stop_game s) = results_prev s
   \<and> answers_correct (stop_game s) = 0 \<and> answers_all (stop_game s) = 0
   \<and> (fields_valid s nc lo hi t \<and> length (numbers s) = nat MAX_NUMBERS \<longrightarrow>
        results_cur (snd (start_game s)) = []
        \<and> results_prev (snd (start_game s))
             = (if results_cur s \<noteq> [] then results_cur s else results_prev s))
   \<and> (push_settings True s = Inr (False, s1) \<longrightarrow>
        start_game s = (None, s1) \<and> results_cur s1 = results_cur s
        \<and> results_prev s1 = results_prev s)
   \<and> results_prev (snd (answer_process u s)) = results_prev s
   \<and> results_prev (fire_tick s) = results_prev s
   \<and> results_cur (snd (advance_turn b s)) \<noteq> []"
proof -
  have "fields_valid s nc lo hi t \<and> length (numbers s) = nat MAX_NUMBERS \<longrightarrow>
        results_cur (snd (start_game s)) = []
        \<and> results_prev (snd (start_game s))
             = (if results_cur s \<noteq> [] then results_cur s else results_prev s)"
  proof
    assume "fields_valid s nc lo hi t \<and> length (numbers s) = nat MAX_NUMBERS"
    then have v: "fields_valid s nc lo hi t" and l: "length (numbers s) = nat MAX_NUMBERS"
      by simp_all
    from start_game_valid [OF v l] show "results_cur (snd (start_game s)) = []
        \<and> results_prev (snd (start_game s))
             = (if results_cur s \<noteq> [] then results_cur s else results_prev s)"
      by auto
  qed
  moreover have "push_settings True s = Inr (False, s1) \<longrightarrow>
        start_game s = (None, s1) \<and> results_cur s1 = results_cur s
        \<and> results_prev s1 = results_prev s"
    using push_settings_frame(5,6) [of True s False s1] by (simp add: start_game_def)
  moreover have "results_prev (fire_tick s) = results_prev s"
    using countdown_cases [of "hd (pending s)" "s\<lparr>pending := tl (pending s)\<rparr>"]
    by (cases "pending s") (auto simp: fire_tick_def stop_game_fields)
  ultimately show ?thesis
    by (simp add: stop_game_fields answer_process_modes advance_turn_frame)
qed

lemma ex_stopped_fields: "fields_valid (stop_game ex_answered) 2 0 20 120"
  "length (numbers (stop_game ex_answered)) = nat MAX_NUMBERS"
  by code_simp+

text \<open>
  The concrete run with the score 1 / 1 on display: the display stays through
  \<open>stop_game\<close>, and the next \<open>start_game\<close> moves it to the previous display.
\<close>

theorem stop_keeps_score_display_witness:
  "results_cur ex_answered = ''1 / 1''
   \<and> results_cur (stop_game ex_answered) = ''1 / 1''
   \<and> answers_correct (stop_game ex_answered) = 0 \<and> answers_all (stop_game ex_answered) = 0
   \<and> results_cur (snd (start_game (stop_game ex_answered))) = []
   \<and> results_prev (snd (start_game (stop_game ex_answered))) = ''1 / 1''"
  using stop_keeps_score_display [of ex_answered]
    stop_keeps_score_display [of "stop_game ex_answered" 2 0 20 120]
  by (simp add: ex_answered_counters ex_stopped_fields)

lemma ex_restart_tick:
  "pending (stop_game ex_running) = [119]"
  "pending (snd (start_game (stop_game ex_running))) = [119, 119]"
  "time_left (snd (start_game (stop_game ex_running))) = 119"
  "time_left (fire_tick (snd (start_game (stop_game ex_running)))) = 118"
  "pending (fire_tick (snd (start_game (stop_game ex_running)))) = [119, 118]"
  by code_simp+

text \<open>
  Claim C5, at a run where the code breaks it. In the concrete run a call of
  \<open>countdown\<close> with 119 is scheduled. After \<open>stop_game\<close> its firing does nothing but
  leave the queue. But when \<open>start_game\<close> runs again before it fires, the flag is down
  again and two calls are scheduled, both with 119: the one from before the stop then
  fires as a full tick, sets the time on display to 118 and schedules itself again.
\<close>

theorem stop_restart_tick_not_suppressed:
  "fire_tick (stop_game ex_running) = (stop_game ex_running)\<lparr>pending := []\<rparr>
   \<and> pending (stop_game ex_running) = [119]
   \<and> pending (snd (start_game (stop_game ex_running))) = [119, 119]
   \<and> time_left (snd (start_game (stop_game ex_running))) = 119
   \<and> time_left (fire_tick (snd (start_game (stop_game ex_running)))) = 118
   \<and> pending (fire_tick (snd (start_game (stop_game ex_running)))) = [119, 118]"
proof -
  have "fire_tick (stop_game ex_running) = (stop_game ex_running)\<lparr>pending := []\<rparr>"
    by (rule fire_tick_stopped) (simp_all add: stop_game_fields ex_restart)
  then show ?thesis
    by (simp add: ex_restart_tick)
qed

subsection \<open>The settings file\<close>

lemma digit_char_props:
  assumes "k < 10"
  shows "is_digit (digit_char k)" "digit_val (digit_char k) = k"
proof -
  from assms have "k = 0 \<or> k = 1 \<or> k = 2 \<or> k = 3 \<or> k = 4 \<or> k = 5 \<or> k = 6 \<or> k = 7
      \<or> k = 8 \<or> k = 9"
    by arith
  then show "is_digit (digit_char k)" "digit_val (digit_char k) = k"
    by (auto simp: digit_char_def is_digit_def digit_val_def)
qed

lemma str_nat_digits: "c \<in> set (str_nat n) \<Longrightarrow> is_digit c"
proof (induction n rule: str_nat.induct)
  case (1 n)
  show ?case
  proof (cases "n < 10")
    case True
    with "1.prems" show ?thesis
      by (simp add: str_nat.simps [of n] digit_char_props)
  next
    case False
    with "1.prems" "1.IH" show ?thesis
      by (auto simp: str_nat.simps [of n] digit_char_props)
  qed
qed

lemma str_nat_nonempty: "str_nat n \<noteq> []"
  by (subst str_nat.simps) simp

lemma digits_value_foldl:
  "\<forall>c \<in> set ds. is_digit c \<Longrightarrow> digits_value acc ds = Some (foldl dec_step acc ds)"
  by (induction ds arbitrary: acc) (simp_all add: dec_step_def)

lemma digits_foldl:
  assumes "\<forall>c \<in> set ds. is_digit c" "ds \<noteq> []"
  shows "digits ds = Some (foldl dec_step 0 ds)"
proof -
  from assms(2) obtain c cs where ds: "ds = c # cs"
    by (cases ds) auto
  with assms(1) show ?thesis
    by (simp add: digits_def digits_value_foldl dec_step_def)
qed

lemma foldl_str_nat: "foldl dec_step 0 (str_nat n) = n"
proof (induction n rule: str_nat.induct)
  case (1 n)
  show ?case
  proof (cases "n < 10")
    case True
    then show ?thesis
      by (simp add: str_nat.simps [of n] dec_step_def digit_char_props)
  next
    case False
    with "1.IH" show ?thesis
      by (simp add: str_nat.simps [of n] dec_step_def digit_char_props)
  qed
qed

lemma digits_str_nat: "digits (str_nat n) = Some n"
  using digits_foldl [of "str_nat n"] str_nat_digits [of _ n] str_nat_nonempty [of n]
  by (simp add: foldl_str_nat)

lemma is_digit_not_special:
  assumes "is_digit c"
  shows "\<not> int_space c" "\<not> py_isspace c" "c \<noteq> CHR '';''" "c \<noteq> CHR 0x0A" "c \<noteq> CHR ''-''"
    "c \<noteq> CHR ''+''"
  using assms by (auto simp: is_digit_def int_space_def py_isspace_def Let_def)

lemma str_int_chars:
  assumes "c \<in> set (str_int i)"
  shows "\<not> py_isspace c" "c \<noteq> CHR '';''" "c \<noteq> CHR 0x0A"
proof -
  from assms have "is_digit c \<or> c = CHR ''-''"
    by (auto simp: str_int_def dest: str_nat_digits split: if_splits)
  then have "\<not> py_isspace c \<and> c \<noteq> CHR '';'' \<and> c \<noteq> CHR 0x0A"
  proof
    assume "is_digit c"
    then show ?thesis
      by (simp add: is_digit_not_special)
  next
    assume "c = CHR ''-''"
    then show ?thesis
      by (simp add: py_isspace_def Let_def)
  qed
  then show "\<not> py_isspace c" "c \<noteq> CHR '';''" "c \<noteq> CHR 0x0A"
    by simp_all
qed

lemma str_int_nonempty: "str_int i \<noteq> []"
  by (simp add: str_int_def str_nat_nonempty)

lemma strip_unchanged:
  assumes "s \<noteq> []" "\<not> P (hd s)" "\<not> P (last s)"
  shows "rev (dropWhile P (rev (dropWhile P s))) = s"
proof -
  from assms(1,2) have "dropWhile P s = s"
    by (cases s) simp_all
  moreover from assms(1,3) have "dropWhile P (rev s) = rev s"
    by (cases "rev s") (simp_all add: last_rev [symmetric] del: last_rev)
  ultimately show ?thesis by simp
qed

lemma int_of_str_str_int: "int_of_str (str_int i) = Some i"
proof -
  obtain c cs where n: "str_nat (nat \<bar>i\<bar>) = c # cs"
    using str_nat_nonempty [of "nat \<bar>i\<bar>"] by (cases "str_nat (nat \<bar>i\<bar>)") auto
  have c: "is_digit c"
    using str_nat_digits [of c "nat \<bar>i\<bar>"] n by simp
  have "last (c # cs) \<in> set (c # cs)"
    by (rule last_in_set) simp
  then have l: "is_digit (last (c # cs))"
    using str_nat_digits [of "last (c # cs)" "nat \<bar>i\<bar>"] n by simp
  have d: "digits (c # cs) = Some (nat \<bar>i\<bar>)"
    using digits_str_nat [of "nat \<bar>i\<bar>"] by (simp add: n)
  show ?thesis
  proof (cases "i < 0")
    case True
    then have s: "str_int i = CHR ''-'' # c # cs"
      using n by (simp add: str_int_def abs_if)
    have ne: "str_int i \<noteq> []"
      by (simp add: s)
    have h: "\<not> int_space (hd (str_int i))"
      by (simp add: s int_space_def Let_def)
    have ls: "last (str_int i) = last (c # cs)"
      by (simp add: s)
    have la: "\<not> int_space (last (str_int i))"
      unfolding ls by (rule is_digit_not_special(1) [OF l])
    have "int_strip (str_int i) = str_int i"
      unfolding int_strip_def by (rule strip_unchanged [OF ne h la])
    then show ?thesis
      using True d by (simp add: int_of_str_def s)
  next
    case False
    then have s: "str_int i = c # cs"
      using n by (simp add: str_int_def abs_if)
    have ne: "str_int i \<noteq> []"
      by (simp add: s)
    have h: "\<not> int_space (hd (str_int i))"
      using is_digit_not_special(1) [OF c] by (simp add: s)
    have la: "\<not> int_space (last (str_int i))"
      unfolding s by (rule is_digit_not_special(1) [OF l])
    have "int_strip (str_int i) = str_int i"
      unfolding int_strip_def by (rule strip_unchanged [OF ne h la])
    then show ?thesis
      using False c d by (simp add: int_of_str_def s is_digit_not_special)
  qed
qed

lemma readlines_line:
  "CHR 0x0A \<notin> set l \<Longrightarrow> readlines (l @ nl @ rest) = (l @ nl) # readlines rest"
  by (induction l) (auto simp: nl_def)

lemma readlines_last:
  "CHR 0x0A \<notin> set l \<Longrightarrow> l \<noteq> [] \<Longrightarrow> readlines l = [l]"
proof (induction l)
  case Nil
  then show ?case by simp
next
  case (Cons c l)
  then show ?case by (cases "l = []") auto
qed

lemma rstrip_nl: "rstrip (l @ nl) = rstrip l"
  by (simp add: rstrip_def nl_def py_isspace_def Let_def)

lemma rstrip_unchanged:
  assumes "l \<noteq> []" "\<not> py_isspace (last l)"
  shows "rstrip l = l"
proof -
  from assms have "dropWhile py_isspace (rev l) = rev l"
    by (cases l rule: rev_cases) simp_all
  then show ?thesis by (simp add: rstrip_def)
qed

lemma split_on_none: "sep \<notin> set v \<Longrightarrow> split_on sep v = [v]"
  by (induction v) auto

lemma split_on_pair:
  "sep \<notin> set k \<Longrightarrow> sep \<notin> set v \<Longrightarrow> split_on sep (k @ sep # v) = [k, v]"
  by (induction k) (auto simp: split_on_none)

lemma cfg_loop_step:
  assumes "split_on CHR '';'' (rstrip x) = [k, v]"
  shows "cfg_loop (x # ls) temp =
    (if k \<noteq> ''operator'' then
       (case int_of_str v of
          None \<Rightarrow> Inl ValueError
        | Some n \<Rightarrow> cfg_loop ls (setitem temp k (PInt n)))
     else cfg_loop ls (setitem temp k (PStr v)))"
  using assms by simp

lemma cfg_loop_int:
  assumes k: "CHR '';'' \<notin> set k" "k \<noteq> ''operator''" and e: "e = nl \<or> e = []"
  shows "cfg_loop ((cfg_line (k, PInt i) @ e) # ls) temp = cfg_loop ls (setitem temp k (PInt i))"
proof -
  let ?l = "k @ CHR '';'' # str_int i"
  have l: "cfg_line (k, PInt i) = ?l"
    by (simp add: cfg_line_def py_str_def)
  have "last ?l \<in> set (str_int i)"
    using str_int_nonempty [of i] by simp
  then have "\<not> py_isspace (last ?l)"
    by (rule str_int_chars)
  then have r0: "rstrip ?l = ?l"
    by (intro rstrip_unchanged) simp_all
  have r: "rstrip (?l @ e) = ?l"
  proof (cases "e = nl")
    case True
    show ?thesis unfolding True rstrip_nl by (rule r0)
  next
    case False
    with e have "e = []" by simp
    then show ?thesis using r0 by (simp only: append_Nil2)
  qed
  have "CHR '';'' \<notin> set (str_int i)"
    using str_int_chars(2) [of "CHR '';''" i] by blast
  then have s: "split_on CHR '';'' ?l = [k, str_int i]"
    using k(1) by (rule split_on_pair [rotated])
  have "split_on CHR '';'' (rstrip (cfg_line (k, PInt i) @ e)) = [k, str_int i]"
    unfolding l r by (rule s)
  from cfg_loop_step [OF this] show ?thesis
    by (simp add: k(2) int_of_str_str_int)
qed

lemma cfg_loop_operator:
  assumes "op \<in> set OPERATORS" and e: "e = nl \<or> e = []"
  shows "cfg_loop ((cfg_line (''operator'', PStr op) @ e) # ls) temp
    = cfg_loop ls (setitem temp ''operator'' (PStr op))"
proof -
  let ?l = "''operator'' @ CHR '';'' # op"
  have l: "cfg_line (''operator'', PStr op) = ?l"
    by (simp add: cfg_line_def py_str_def)
  from assms(1) have op: "op = ''+'' \<or> op = ''-'' \<or> op = [CHR 0xB7]"
    by (simp add: OPERATORS_def)
  then have r0: "rstrip ?l = ?l"
    by (auto simp: rstrip_def py_isspace_def Let_def)
  have r: "rstrip (?l @ e) = ?l"
  proof (cases "e = nl")
    case True
    show ?thesis unfolding True rstrip_nl by (rule r0)
  next
    case False
    with e have "e = []" by simp
    then show ?thesis using r0 by (simp only: append_Nil2)
  qed
  have s: "split_on CHR '';'' ?l = [''operator'', op]"
    using op by (intro split_on_pair) auto
  have "split_on CHR '';'' (rstrip (cfg_line (''operator'', PStr op) @ e)) = [''operator'', op]"
    unfolding l r by (rule s)
  from cfg_loop_step [OF this] show ?thesis
    by simp
qed

lemma cfg_line_no_newline:
  "CHR 0x0A \<notin> set k \<Longrightarrow> CHR 0x0A \<notin> set (cfg_line (k, PInt i))"
  "op \<in> set OPERATORS \<Longrightarrow> CHR 0x0A \<notin> set (cfg_line (''operator'', PStr op))"
  using str_int_chars(3) [of "CHR 0x0A" i]
  by (auto simp: cfg_line_def py_str_def OPERATORS_def)

lemma cfg_line_nonempty: "cfg_line (''time_limit'', v) \<noteq> []"
  by (simp add: cfg_line_def)

lemma read_write_raw:
  assumes "op \<in> set OPERATORS"
  shows "read_cfg (write_cfg (raw_settings (PInt nc) (PInt lo) (PInt hi) (PStr op) (PInt t)))
    = (raw_settings (PInt nc) (PInt lo) (PInt hi) (PStr op) (PInt t), [],
       write_cfg (raw_settings (PInt nc) (PInt lo) (PInt hi) (PStr op) (PInt t)))"
proof -
  let ?d = "raw_settings (PInt nc) (PInt lo) (PInt hi) (PStr op) (PInt t)"
  let ?l1 = "cfg_line (''numbercount'', PInt nc)"
  let ?l2 = "cfg_line (''range_lower'', PInt lo)"
  let ?l3 = "cfg_line (''range_upper'', PInt hi)"
  let ?l4 = "cfg_line (''operator'', PStr op)"
  let ?l5 = "cfg_line (''time_limit'', PInt t)"
  have w: "write_cfg ?d = Some (?l1 @ nl @ ?l2 @ nl @ ?l3 @ nl @ ?l4 @ nl @ ?l5)"
    by (simp add: write_cfg_def raw_settings_def)
  have n: "CHR 0x0A \<notin> set ?l1" "CHR 0x0A \<notin> set ?l2" "CHR 0x0A \<notin> set ?l3"
    "CHR 0x0A \<notin> set ?l4" "CHR 0x0A \<notin> set ?l5"
    using assms by (simp_all add: cfg_line_no_newline)
  have rl: "readlines (?l1 @ nl @ ?l2 @ nl @ ?l3 @ nl @ ?l4 @ nl @ ?l5)
      = [?l1 @ nl, ?l2 @ nl, ?l3 @ nl, ?l4 @ nl, ?l5 @ []]"
    by (simp only: readlines_line [OF n(1)] readlines_line [OF n(2)] readlines_line [OF n(3)]
        readlines_line [OF n(4)] readlines_last [OF n(5) cfg_line_nonempty] append_Nil2)
  have loop: "cfg_loop [?l1 @ nl, ?l2 @ nl, ?l3 @ nl, ?l4 @ nl, ?l5 @ []] [] = Inr ?d"
    by (simp add: cfg_loop_int cfg_loop_operator [OF assms] raw_settings_def
        del: cfg_loop.simps(2) append.simps append_Nil2)
  have keys: "\<not> (\<exists>i \<in> set (map fst defaults). i \<notin> set (map fst ?d))"
    by (simp add: defaults_def raw_settings_def)
  show ?thesis
    unfolding read_cfg_def w option.case rl loop sum.case using keys by (simp only: if_False)
qed

text \<open>
  Claim C7. For every valid settings dict, \<open>read_cfg\<close> on the file that \<open>write_cfg\<close>
  wrote returns the same dict, entry by entry in the same order, shows no message box
  and leaves the file as it is: the four integers and the operator glyph come back
  from their \<open>name;value\<close> lines unchanged.
\<close>

theorem cfg_round_trip:
  "valid_settings d \<longrightarrow> read_cfg (write_cfg d) = (d, [], write_cfg d)"
proof
  assume "valid_settings d"
  then obtain nc lo hi op t where d: "d = raw_settings (PInt nc) (PInt lo) (PInt hi) op (PInt t)"
    and "rule_operator op"
    by (auto simp: valid_settings_def)
  then obtain g where "op = PStr g" "g \<in> set OPERATORS"
    by (auto simp: rule_operator_def)
  then show "read_cfg (write_cfg d) = (d, [], write_cfg d)"
    unfolding d by (simp only: read_write_raw)
qed

lemma ex_settings_valid: "valid_settings (raw_settings (PInt 3) (PInt 10) (PInt 250) (PStr [CHR 0xB7]) (PInt 0))"
  unfolding valid_settings_def
  by (intro exI [of _ 3] exI [of _ 10] exI [of _ 250] exI [of _ "PStr [CHR 0xB7]"] exI [of _ 0])
    (simp add: rule_numbercount_def rule_range_def rule_order_def rule_operator_def rule_time_def
      MAX_NUMBERS_def RANGE_LIMIT_def MAX_TIME_LIMIT_def OPERATORS_def)

lemma ex_settings_text:
  "write_cfg (raw_settings (PInt 3) (PInt 10) (PInt 250) (PStr [CHR 0xB7]) (PInt 0))
   = Some (''numbercount;3'' @ nl @ ''range_lower;10'' @ nl @ ''range_upper;250'' @ nl
           @ ''operator;'' @ [CHR 0xB7] @ nl @ ''time_limit;0'')"
  by code_simp

text \<open>Three numbers from 10 to 250, the dot as operator, no time limit.\<close>

theorem cfg_round_trip_witness:
  "valid_settings (raw_settings (PInt 3) (PInt 10) (PInt 250) (PStr [CHR 0xB7]) (PInt 0))
   \<and> read_cfg (Some (''numbercount;3'' @ nl @ ''range_lower;10'' @ nl @ ''range_upper;250'' @ nl
           @ ''operator;'' @ [CHR 0xB7] @ nl @ ''time_limit;0''))
     = (raw_settings (PInt 3) (PInt 10) (PInt 250) (PStr [CHR 0xB7]) (PInt 0), [],
        Some (''numbercount;3'' @ nl @ ''range_lower;10'' @ nl @ ''range_upper;250'' @ nl
           @ ''operator;'' @ [CHR 0xB7] @ nl @ ''time_limit;0''))"
  using cfg_round_trip [of "raw_settings (PInt 3) (PInt 10) (PInt 250) (PStr [CHR 0xB7]) (PInt 0)"]
    ex_settings_valid
  by (simp only: ex_settings_text simp_thms)

subsection \<open>Running sessions among the reachable states\<close>

lemma running_entry [simp]:
  "running (s\<lparr>uanswer := u\<rparr>) = running s"
  "running (s\<lparr>uanswer_focus := f\<rparr>) = running s"
  by (simp_all add: running_def)

lemma set_new_calculation_focus:
  "uanswer_focus (snd (set_new_calculation s)) = uanswer_focus s"
  by (simp add: set_new_calculation_def clear_field_def split: sum.splits option.splits)

lemma answer_process_focus:
  "uanswer_focus (snd (answer_process u s)) = uanswer_focus s"
proof -
  have a: "uanswer_focus (snd (advance_turn b x)) = uanswer_focus x" for b x
    by (simp add: advance_turn_def Let_def set_new_calculation_focus)
  have b: "uanswer_focus (bad_input x) = uanswer_focus x" for x
    by (simp add: bad_input_def clear_field_def Let_def)
  from answer_process_cases [of u s] show ?thesis
    by (elim disjE exE) (simp_all add: a b)
qed

lemma running_answer_process:
  assumes "running s"
  shows "fst (answer_process u s) = None \<and> running (snd (answer_process u s))"
proof -
  from running_correct_answer [OF assms] obtain v where v: "correct_answer s = Some v"
    by blast
  have adv: "fst (advance_turn b s) = None \<and> running (snd (advance_turn b s))" for b
    using running_advance_turn_advanced [OF assms, of b] by (simp add: advanced_def)
  show ?thesis
  proof (cases "int_of_str u")
    case (Some n)
    then show ?thesis
      using adv [of "n = v"] by (simp add: answer_process_running [OF assms v])
  next
    case None
    then show ?thesis
      using adv [of False] assms by (simp add: answer_process_running [OF assms v])
  qed
qed

lemma start_game_refused:
  assumes "\<not> (\<exists>nc lo hi t. fields_valid s nc lo hi t)"
  shows "fst (start_game s) = None"
    "running_active (snd (start_game s)) = running_active s"
    "uanswer_focus (snd (start_game s)) = uanswer_focus s"
proof -
  from push_settings_cases [of s True] assms obtain errors where
    p: "push_settings True s = Inr (False, s\<lparr>dialogs := dialogs s @
           [ShowError ''Input error''
              (''The following errors were found:'' @ nl @ nl @ py_join (nl @ nl) errors)]\<rparr>)"
    by auto
  show "fst (start_game s) = None"
    "running_active (snd (start_game s)) = running_active s"
    "uanswer_focus (snd (start_game s)) = uanswer_focus s"
    by (simp_all add: start_game_def p)
qed

lemma reachable_running:
  assumes "reachable s"
  shows "(running_active s \<longrightarrow> running s) \<and> (uanswer_focus s \<longrightarrow> running_active s)"
  using assms
proof (induction rule: reachable.induct)
  case (init cfg src)
  have "\<not> uanswer_focus (snd (init_app cfg src))"
    by (simp add: init_app_def left_eq_config_def Let_def split: prod.splits sum.splits pyval.splits)
  then show ?case by (simp add: init_app_fields)
next
  case (edit s a b c d e)
  from reachable_invariants [OF edit.hyps(1)] edit.hyps(2) have "\<not> running_active s"
    by auto
  with edit.IH show ?case by simp
next
  case (typing s u)
  then show ?case by simp
next
  case (refocus s f)
  then show ?case by auto
next
  case (clear_pressed s)
  then show ?case by (simp add: clear_key_def clear_field_def)
next
  case (help_pressed s)
  then show ?case by (simp add: help_button_def)
next
  case (start s)
  show ?case
  proof (cases "stopped_active s")
    case False
    with start.IH show ?thesis by (simp add: start_button_def)
  next
    case True
    with reachable_invariants [OF start.hyps] have nr: "\<not> running_active s"
      by auto
    with start.IH have nf: "\<not> uanswer_focus s"
      by simp
    show ?thesis
    proof (cases "\<exists>nc lo hi t. fields_valid s nc lo hi t")
      case True
      then obtain nc lo hi t where v: "fields_valid s nc lo hi t"
        by blast
      from start_game_valid [OF v reachable_numbers [OF start.hyps]]
      have "running (snd (start_game s))"
        by auto
      then show ?thesis
        using \<open>stopped_active s\<close> by (simp add: start_button_def running_def)
    next
      case False
      from start_game_refused [OF this] nr nf show ?thesis
        using \<open>stopped_active s\<close> by (simp add: start_button_def)
    qed
  qed
next
  case (stop s)
  then show ?case
    by (auto simp: stop_button_def stop_game_fields)
next
  case (submit s)
  show ?case
  proof (cases "uanswer_focus s")
    case False
    with submit.IH show ?thesis by (simp add: submit_key_def)
  next
    case True
    with submit.IH have r: "running s" by simp
    from running_answer_process [OF r, of "uanswer s"] show ?thesis
      using True by (simp add: submit_key_def running_def)
  qed
next
  case (tick s)
  show ?case
  proof (cases "pending s")
    case Nil
    with tick.IH show ?thesis by (simp add: fire_tick_def)
  next
    case (Cons c cs)
    let ?s = "s\<lparr>pending := cs\<rparr>"
    have k: "(running_active ?s \<longrightarrow> running ?s) \<and> (uanswer_focus ?s \<longrightarrow> running_active ?s)"
      using tick.IH by simp
    have ft: "fire_tick s = countdown c ?s"
      by (simp add: fire_tick_def Cons)
    from countdown_cases [of c ?s] show ?thesis
      unfolding ft using k by (elim disjE) (simp_all add: stop_game_fields)
  qed
qed

lemma reachable_no_exception:
  assumes "reachable s"
  shows "fst (start_button s) = None" "fst (submit_key s) = None"
proof -
  note inv = reachable_invariants [OF assms] reachable_running [OF assms]
  show "fst (start_button s) = None"
  proof (cases "\<exists>nc lo hi t. fields_valid s nc lo hi t")
    case True
    then obtain nc lo hi t where v: "fields_valid s nc lo hi t"
      by blast
    from start_game_valid [OF v reachable_numbers [OF assms]] show ?thesis
      by (auto simp: start_button_def)
  next
    case False
    from start_game_refused(1) [OF this] show ?thesis
      by (simp add: start_button_def)
  qed
  show "fst (submit_key s) = None"
  proof (cases "uanswer_focus s")
    case False
    then show ?thesis by (simp add: submit_key_def)
  next
    case True
    with inv have "running s" by simp
    from running_answer_process [OF this, of "uanswer s"] show ?thesis
      by (simp add: submit_key_def)
  qed
qed

text \<open>
  Claim C3, as it holds of the code. Every reachable state whose running widgets are
  enabled is a running session. In a running session \<open>answer_process\<close> has a
  correct answer for the equation on display and classifies the text as follows. The
  empty text is a skip: a counted attempt that is not correct. A text that \<open>int()\<close>
  accepts (whitespace around the literal is ignored) is a counted attempt, correct
  exactly when the integer equals the answer of the equation; after a counted attempt
  new operands are drawn. Every other text, so also a text of whitespace only, changes
  nothing but the entry, which is cleared, and the message boxes, where the error
  "Bad input" is added: both counters, the score on display and the equation stay.
\<close>

theorem answer_process_classifies:
  "(reachable s \<and> running_active s \<longrightarrow> running s)
   \<and> (running s \<longrightarrow>
     (\<exists>answer. correct_answer s = Some answer
        \<and> (txt = [] \<longrightarrow>
             fst (answer_process txt s) = None
             \<and> advanced False s (snd (answer_process txt s)))
        \<and> (\<forall>n. int_of_str txt = Some n \<longrightarrow>
             fst (answer_process txt s) = None
             \<and> advanced (n = answer) s (snd (answer_process txt s)))
        \<and> (int_of_str txt = None \<and> txt \<noteq> [] \<longrightarrow>
             answer_process txt s =
               (None, s\<lparr>uanswer := [], dialogs := dialogs s @
                  [ShowError ''Bad input'' ''Input can only be an integer or empty'']\<rparr>))))"
proof (intro conjI impI)
  assume "reachable s \<and> running_active s"
  then show "running s"
    using reachable_running [of s] by simp
next
  assume r: "running s"
  from running_correct_answer [OF r] obtain v where v: "correct_answer s = Some v"
    by blast
  have ap: "answer_process txt s =
     (case int_of_str txt of
        Some n \<Rightarrow> advance_turn (n = v) s
      | None \<Rightarrow> if txt = [] then advance_turn False s
                else (None, s\<lparr>uanswer := [], dialogs := dialogs s @
                       [ShowError ''Bad input'' ''Input can only be an integer or empty'']\<rparr>))"
    by (rule answer_process_running [OF r v])
  have e: "int_of_str [] = None"
    by (simp add: int_of_str_def int_strip_def)
  have "txt = [] \<longrightarrow> fst (answer_process txt s) = None
      \<and> advanced False s (snd (answer_process txt s))"
  proof
    assume "txt = []"
    then have "answer_process txt s = advance_turn False s"
      unfolding ap by (simp add: e)
    then show "fst (answer_process txt s) = None
        \<and> advanced False s (snd (answer_process txt s))"
      using running_advance_turn_advanced [OF r, of False] by simp
  qed
  moreover have "\<forall>n. int_of_str txt = Some n \<longrightarrow> fst (answer_process txt s) = None
      \<and> advanced (n = v) s (snd (answer_process txt s))"
    using running_advance_turn_advanced [OF r] by (simp add: ap)
  moreover have "int_of_str txt = None \<and> txt \<noteq> [] \<longrightarrow> answer_process txt s =
      (None, s\<lparr>uanswer := [], dialogs := dialogs s @
         [ShowError ''Bad input'' ''Input can only be an integer or empty'']\<rparr>)"
    by (simp add: ap)
  ultimately show "\<exists>answer. correct_answer s = Some answer
        \<and> (txt = [] \<longrightarrow>
             fst (answer_process txt s) = None
             \<and> advanced False s (snd (answer_process txt s)))
        \<and> (\<forall>n. int_of_str txt = Some n \<longrightarrow>
             fst (answer_process txt s) = None
             \<and> advanced (n = answer) s (snd (answer_process txt s)))
        \<and> (int_of_str txt = None \<and> txt \<noteq> [] \<longrightarrow>
             answer_process txt s =
               (None, s\<lparr>uanswer := [], dialogs := dialogs s @
                  [ShowError ''Bad input'' ''Input can only be an integer or empty'']\<rparr>))"
    using v by blast
qed

lemma ex_running_correct: "correct_answer ex_running = Some 13"
  by code_simp

lemma int_of_str_examples:
  "int_of_str '' 13 '' = Some 13" "int_of_str ''7'' = Some 7" "int_of_str ''abc'' = None"
  "int_of_str '' '' = None"
  by code_simp+

text \<open>
  In the concrete run the equation is \<open>3 + 10\<close>: the text \<open>" 13 "\<close> is a correct
  attempt, \<open>"7"\<close> and the empty text are attempts that are not correct, \<open>"abc"\<close> is
  refused.
\<close>

theorem answer_process_classifies_witness:
  "reachable ex_running \<and> running ex_running \<and> correct_answer ex_running = Some 13
   \<and> advanced True ex_running (snd (answer_process '' 13 '' ex_running))
   \<and> advanced False ex_running (snd (answer_process ''7'' ex_running))
   \<and> advanced False ex_running (snd (answer_process [] ex_running))
   \<and> answer_process ''abc'' ex_running =
        (None, ex_running\<lparr>uanswer := [], dialogs := dialogs ex_running @
           [ShowError ''Bad input'' ''Input can only be an integer or empty'']\<rparr>)"
  using answer_process_classifies [of ex_running "'' 13 ''"]
    answer_process_classifies [of ex_running "''7''"]
    answer_process_classifies [of ex_running "[]"]
    answer_process_classifies [of ex_running "''abc''"]
    ex_running_running ex_running_reachable ex_running_correct
  by (simp add: int_of_str_examples)

text \<open>
  Claim C3 as stated has a text that is empty after trimming count as a skip. The text
  of one space is empty after trimming, and in the concrete run it is refused: the total
  and the equation stay, and the error box is shown.
\<close>

theorem answer_process_blank_counterexample:
  "running ex_running
   \<and> int_strip '' '' = []
   \<and> answers_all (snd (answer_process '' '' ex_running)) = answers_all ex_running
   \<and> operands (snd (answer_process '' '' ex_running)) = operands ex_running
   \<and> dialogs (snd (answer_process '' '' ex_running)) =
        dialogs ex_running @ [ShowError ''Bad input'' ''Input can only be an integer or empty'']"
proof -
  have "int_strip '' '' = []"
    by code_simp
  moreover have "answer_process '' '' ex_running =
      (None, ex_running\<lparr>uanswer := [], dialogs := dialogs ex_running @
         [ShowError ''Bad input'' ''Input can only be an integer or empty'']\<rparr>)"
    using answer_process_running [OF ex_running_running ex_running_correct, of "'' ''"]
    by (simp add: int_of_str_examples)
  ultimately show ?thesis
    using ex_running_running by (simp add: operands_def split: option.split)
qed

subsection \<open>The countdown after a restart\<close>

lemma ex_init1_reachable: "reachable ex_init1"
proof -
  have e: "ex_init1 = ex_init\<lparr>numbercount_w := numbercount_w ex_init,
      range_lower_w := range_lower_w ex_init, range_upper_w := range_upper_w ex_init,
      op_dropdown_w := op_dropdown_w ex_init, time_entry_w := ''1''\<rparr>"
    by (simp add: ex_init1_def)
  show ?thesis
    unfolding e by (rule reachable.edit [OF ex_init_reachable ex_init_stopped(1)])
qed

lemma ex_stale_stopped:
  "stopped_active (stop_button ex_running)"
  "stopped_active (stop_button (snd (start_button ex_init1)))"
  by code_simp+

lemma ex_stale_reachable: "reachable ex_stale1" "reachable ex_stale800"
proof -
  have "reachable (stop_button ex_running)"
    by (intro reachable.stop ex_running_reachable)
  then show "reachable ex_stale1"
    unfolding ex_stale1_def by (rule reachable.edit [OF _ ex_stale_stopped(1)])
  have "reachable (stop_button (snd (start_button ex_init1)))"
    by (intro reachable.stop reachable.start ex_init1_reachable)
  then show "reachable ex_stale800"
    unfolding ex_stale800_def by (rule reachable.edit [OF _ ex_stale_stopped(2)])
qed

lemma ex_stale_running:
  "running (snd (start_button ex_stale1))" "running (snd (start_button ex_stale800))"
proof -
  have a: "running_active (snd (start_button ex_stale1))"
    "running_active (snd (start_button ex_stale800))"
    by code_simp+
  show "running (snd (start_button ex_stale1))"
    using reachable_running [OF reachable.start [OF ex_stale_reachable(1)]] a(1) by simp
  show "running (snd (start_button ex_stale800))"
    using reachable_running [OF reachable.start [OF ex_stale_reachable(2)]] a(2) by simp
qed

text \<open>
  Claim C4, at runs where the code breaks it. Both runs are reachable, and the Start
  button gives a running session in each. In the first the time limit is 1 and two
  calls are scheduled, with 119 and 0: the first tick runs the call left over from
  before, so after one tick the session still runs and the time on display is 118. In
  the second the time limit is 800 and the calls are scheduled with 0 and 799: the
  first tick runs the call with 0 and stops the session of 800 seconds.
\<close>

theorem stale_tick_breaks_countdown:
  "pending ex_stale1 = [119]
   \<and> fst (start_button ex_stale1) = None
   \<and> get_int (settings (snd (start_button ex_stale1))) ''time_limit'' = Inr 1
   \<and> pending (snd (start_button ex_stale1)) = [119, 0]
   \<and> running_active (fire_tick (snd (start_button ex_stale1)))
   \<and> time_left (fire_tick (snd (start_button ex_stale1))) = 118
   \<and> pending (fire_tick (snd (start_button ex_stale1))) = [0, 118]
   \<and> pending ex_stale800 = [0]
   \<and> fst (start_button ex_stale800) = None
   \<and> get_int (settings (snd (start_button ex_stale800))) ''time_limit'' = Inr 800
   \<and> running_active (snd (start_button ex_stale800))
   \<and> pending (snd (start_button ex_stale800)) = [0, 799]
   \<and> \<not> running_active (fire_tick (snd (start_button ex_stale800)))
   \<and> stopped_active (fire_tick (snd (start_button ex_stale800)))"
  by code_simp

end
